theory Spec2Isabelle
  imports Complex_Main "HOL-Library.Log_Nat" "HOL-Library.Word"
begin

text \<open>
  A model of \<^verbatim>\<open>src/index.ts\<close>, the HTTP service that resolves a video, proxies its
  captions, and creates and deletes flags on caption files. The functions of the file are
  modelled as they are written: \<^verbatim>\<open>parseYouTubeId\<close>, \<^verbatim>\<open>createFlagId\<close>, \<^verbatim>\<open>formatTime\<close> and
  the handlers of the two flag routes. What they call from outside the file is either
  modelled from its specification (the number and string operations of the language) or
  taken as a parameter (the keyed hash, the record store, the environment). The two GET
  routes only fetch a remote file around \<^verbatim>\<open>parseYouTubeId\<close> and are not modelled.
\<close>

section \<open>JavaScript numbers\<close>

text \<open>
  The service is TypeScript: every \<^verbatim>\<open>number\<close> is an IEEE 754 binary64 value. A finite
  value is a rational; the two zeros are one value \<open>Fin 0\<close>, which is sound for this
  program: it never divides by a zero, and every zero prints as \<^verbatim>\<open>0\<close>.
\<close>

datatype jsnum = NaN | PosInf | NegInf | Fin rat

definition pow2 :: "int \<Rightarrow> rat" where
  "pow2 e = 2 powi e"

definition pow10 :: "int \<Rightarrow> rat" where
  "pow10 e = 10 powi e"

text \<open>The binary exponent of a positive rational: \<open>pow2 e \<le> q < pow2 (e + 1)\<close>.\<close>

definition ilog2 :: "rat \<Rightarrow> int" where
  "ilog2 q = (let e = bitlen (fst (quotient_of q)) - bitlen (snd (quotient_of q))
              in if pow2 e \<le> q then e else e - 1)"

definition round_half_even :: "rat \<Rightarrow> int" where
  "round_half_even x =
     (let f = \<lfloor>x\<rfloor>; d = x - of_int f
      in if d < 1 / 2 then f else if 1 / 2 < d then f + 1
         else if even f then f else f + 1)"

text \<open>
  Rounding of a positive rational to binary64, to nearest, ties to even: 53 significant
  bits, the exponent not below \<open>-1022\<close> (subnormal values share the last binade's
  spacing \<open>ulp\<close>). A rounded value that reaches \<open>2 ^ 1024\<close> overflows to an infinity.
\<close>

definition ulp :: "rat \<Rightarrow> rat" where
  "ulp a = pow2 (max (ilog2 a) (- 1022) - 52)"

definition nearest :: "rat \<Rightarrow> rat" where
  "nearest a = of_int (round_half_even (a / ulp a)) * ulp a"

definition to_double :: "rat \<Rightarrow> jsnum" where
  "to_double q =
     (if q = 0 then Fin 0
      else if 0 < q then (if pow2 1024 \<le> nearest q then PosInf else Fin (nearest q))
      else (if pow2 1024 \<le> nearest (- q) then NegInf else Fin (- nearest (- q))))"

text \<open>
  The arithmetic the service uses, each with a positive literal as right operand:
  \<^verbatim>\<open>x / d\<close> and \<^verbatim>\<open>x * d\<close> round the exact result; \<^verbatim>\<open>x % d\<close> is the
  remainder of the truncating division, with the sign of \<open>x\<close>, and is exact;
  \<^verbatim>\<open>Math.floor\<close> is exact.
\<close>

fun js_div :: "jsnum \<Rightarrow> rat \<Rightarrow> jsnum" where
  "js_div (Fin q) d = to_double (q / d)"
| "js_div x d = x"

fun js_mul :: "jsnum \<Rightarrow> rat \<Rightarrow> jsnum" where
  "js_mul (Fin q) d = to_double (q * d)"
| "js_mul x d = x"

definition trunc_rat :: "rat \<Rightarrow> int" where
  "trunc_rat q = (if 0 \<le> q then \<lfloor>q\<rfloor> else \<lceil>q\<rceil>)"

fun js_rem :: "jsnum \<Rightarrow> rat \<Rightarrow> jsnum" where
  "js_rem (Fin q) d = Fin (q - d * of_int (trunc_rat (q / d)))"
| "js_rem x d = NaN"

fun js_floor :: "jsnum \<Rightarrow> jsnum" where
  "js_floor (Fin q) = Fin (of_int \<lfloor>q\<rfloor>)"
| "js_floor x = x"

section \<open>Strings\<close>

text \<open>
  A JavaScript string is a sequence of code units; a \<^typ>\<open>char\<close> is a code unit below
  256, so the white space above that range is outside the model. A value that may be
  \<^verbatim>\<open>undefined\<close> is an \<open>option\<close>.
\<close>

definition digit_char :: "nat \<Rightarrow> char" where
  "digit_char d = char_of (48 + d)"

fun dec_of_nat :: "nat \<Rightarrow> string" where
  "dec_of_nat n =
     (if n < 10 then [digit_char n] else dec_of_nat (n div 10) @ [digit_char (n mod 10)])"

declare dec_of_nat.simps [simp del]

definition dec_of_int :: "int \<Rightarrow> string" where
  "dec_of_int i = (if i < 0 then CHR ''-'' # dec_of_nat (nat (- i)) else dec_of_nat (nat i))"

subsection \<open>\<^verbatim>\<open>Number::toString\<close>\<close>

text \<open>The decimal exponent of a positive rational: \<open>pow10 (n - 1) \<le> q < pow10 n\<close>.\<close>

definition decimal_exponent :: "rat \<Rightarrow> int" where
  "decimal_exponent q =
     (let d = int (floorlog 10 (nat (fst (quotient_of q))))
            - int (floorlog 10 (nat (snd (quotient_of q))))
      in if q < pow10 d then d else d + 1)"

text \<open>
  ECMAScript prints a positive finite \<open>x\<close> from integers \<open>n\<close>, \<open>k\<close>, \<open>s\<close> with
  \<open>10 ^ (k - 1) \<le> s < 10 ^ k\<close>, such that \<open>s * 10 ^ (n - k)\<close> rounds to \<open>x\<close> and \<open>k\<close> is as
  small as possible; among several \<open>s\<close> the one nearest to \<open>x\<close>, an even one on a tie.
  A candidate lies next to \<open>x\<close> on the grid of step \<open>10 ^ (n - k)\<close>, in the decade of \<open>x\<close>
  or at the start of the next one.
\<close>

definition digit_candidates :: "rat \<Rightarrow> nat \<Rightarrow> (int \<times> nat) list" where
  "digit_candidates x k =
     filter (\<lambda>(n, s). 10 ^ (k - 1) \<le> s \<and> s < 10 ^ k
                    \<and> to_double (of_nat s * pow10 (n - int k)) = Fin x)
       (concat (map (\<lambda>n. [(n, nat \<lfloor>x / pow10 (n - int k)\<rfloor>), (n, nat \<lceil>x / pow10 (n - int k)\<rceil>)])
                    [decimal_exponent x, decimal_exponent x + 1]))"

definition nearer :: "rat \<Rightarrow> nat \<Rightarrow> int \<times> nat \<Rightarrow> int \<times> nat \<Rightarrow> int \<times> nat" where
  "nearer x k a b =
     (let da = \<bar>of_nat (snd a) * pow10 (fst a - int k) - x\<bar>;
          db = \<bar>of_nat (snd b) * pow10 (fst b - int k) - x\<bar>
      in if db < da then b else if db = da \<and> odd (snd a) \<and> even (snd b) then b else a)"

fun shortest_digits :: "rat \<Rightarrow> nat \<Rightarrow> nat \<Rightarrow> int \<times> nat \<times> nat" where
  "shortest_digits x k 0 = (decimal_exponent x, k, nat \<lfloor>x / pow10 (decimal_exponent x - int k)\<rfloor>)"
| "shortest_digits x k (Suc fuel) =
     (case digit_candidates x k of
        [] \<Rightarrow> shortest_digits x (k + 1) fuel
      | c # cs \<Rightarrow> (case foldl (nearer x k) c cs of (n, s) \<Rightarrow> (n, k, s)))"

definition format_digits :: "int \<times> nat \<times> nat \<Rightarrow> string" where
  "format_digits nks =
     (case nks of (n, k, s) \<Rightarrow>
        let ds = dec_of_nat s in
        if - 5 \<le> n \<and> n \<le> 21 then
          (if int k \<le> n then ds @ replicate (nat (n - int k)) CHR ''0''
           else if 0 < n then take (nat n) ds @ ''.'' @ drop (nat n) ds
           else ''0.'' @ replicate (nat (- n)) CHR ''0'' @ ds)
        else
          (let ex = (if 0 < n - 1 then ''+'' else ''-'') @ dec_of_nat (nat \<bar>n - 1\<bar>)
           in if k = 1 then ds @ ''e'' @ ex
              else take 1 ds @ ''.'' @ drop 1 ds @ ''e'' @ ex))"

text \<open>
  An integer below \<open>2 ^ 53\<close> prints as its decimal numeral: the integers there are
  binary64 values with spacing at most 1, so no shorter digit string reads back as the
  same value. Every other value goes through the search, 17 digits always being enough.
\<close>

definition pos_toString :: "rat \<Rightarrow> string" where
  "pos_toString x =
     (if of_int \<lfloor>x\<rfloor> = x \<and> x < 2 ^ 53 then dec_of_nat (nat \<lfloor>x\<rfloor>)
      else format_digits (shortest_digits x 1 17))"

fun number_toString :: "jsnum \<Rightarrow> string" where
  "number_toString NaN = ''NaN''"
| "number_toString PosInf = ''Infinity''"
| "number_toString NegInf = ''-Infinity''"
| "number_toString (Fin q) =
     (if q = 0 then ''0'' else if q < 0 then CHR ''-'' # pos_toString (- q) else pos_toString q)"

text \<open>\<^verbatim>\<open>String(v)\<close>, and the \<^verbatim>\<open>${v}\<close> of a template literal.\<close>

fun js_String :: "jsnum option \<Rightarrow> string" where
  "js_String None = ''undefined''"
| "js_String (Some x) = number_toString x"

definition padStart :: "nat \<Rightarrow> char \<Rightarrow> string \<Rightarrow> string" where
  "padStart n c s = replicate (n - length s) c @ s"

subsection \<open>\<^verbatim>\<open>Number(s)\<close>\<close>

text \<open>
  \<^verbatim>\<open>StringToNumber\<close>: white space is trimmed; the empty string is 0; the rest is a
  \<^verbatim>\<open>StrNumericLiteral\<close> (a signed decimal literal with optional fraction and exponent,
  \<^verbatim>\<open>Infinity\<close>, or an unsigned binary, octal or hexadecimal integer), or the result is
  \<open>NaN\<close>. \<^verbatim>\<open>Number(undefined)\<close> is \<open>NaN\<close>.
\<close>

definition is_white :: "char \<Rightarrow> bool" where
  "is_white c = (of_char c \<in> {9, 10, 11, 12, 13, 32, 160 :: nat})"

definition trim :: "string \<Rightarrow> string" where
  "trim s = rev (dropWhile is_white (rev (dropWhile is_white s)))"

definition radix_digit :: "nat \<Rightarrow> char \<Rightarrow> nat option" where
  "radix_digit b c =
     (let v = (of_char c :: nat);
          d = (if 48 \<le> v \<and> v \<le> 57 then Some (v - 48)
               else if 97 \<le> v \<and> v \<le> 102 then Some (v - 87)
               else if 65 \<le> v \<and> v \<le> 70 then Some (v - 55)
               else None)
      in case d of None \<Rightarrow> None | Some n \<Rightarrow> if n < b then Some n else None)"

definition is_digit :: "char \<Rightarrow> bool" where
  "is_digit c = (radix_digit 10 c \<noteq> None)"

definition digits_value :: "nat \<Rightarrow> string \<Rightarrow> nat" where
  "digits_value b ds = foldl (\<lambda>a c. a * b + (case radix_digit b c of None \<Rightarrow> 0 | Some d \<Rightarrow> d)) 0 ds"

definition all_digits :: "nat \<Rightarrow> string \<Rightarrow> bool" where
  "all_digits b ds = (ds \<noteq> [] \<and> list_all (\<lambda>c. radix_digit b c \<noteq> None) ds)"

definition exponent_part :: "string \<Rightarrow> int option" where
  "exponent_part r =
     (case r of
        [] \<Rightarrow> Some 0
      | c # r' \<Rightarrow>
          if c = CHR ''e'' \<or> c = CHR ''E'' then
            (case r' of
               [] \<Rightarrow> None
             | g # ds \<Rightarrow>
                 if g = CHR ''+'' then
                   (if all_digits 10 ds then Some (int (digits_value 10 ds)) else None)
                 else if g = CHR ''-'' then
                   (if all_digits 10 ds then Some (- int (digits_value 10 ds)) else None)
                 else if all_digits 10 r' then Some (int (digits_value 10 r'))
                 else None)
          else None)"

definition unsigned_decimal :: "string \<Rightarrow> rat option" where
  "unsigned_decimal t =
     (let ip = takeWhile is_digit t; r1 = dropWhile is_digit t;
          dot = (r1 \<noteq> [] \<and> hd r1 = CHR ''.'');
          fp = (if dot then takeWhile is_digit (tl r1) else []);
          r2 = (if dot then dropWhile is_digit (tl r1) else r1)
      in if ip = [] \<and> fp = [] then None
         else case exponent_part r2 of
                None \<Rightarrow> None
              | Some e \<Rightarrow>
                  Some (of_nat (digits_value 10 (ip @ fp)) * pow10 (e - int (length fp))))"

definition unsigned_literal :: "string \<Rightarrow> jsnum" where
  "unsigned_literal t =
     (if t = ''Infinity'' then PosInf
      else case unsigned_decimal t of None \<Rightarrow> NaN | Some q \<Rightarrow> to_double q)"

fun negate :: "jsnum \<Rightarrow> jsnum" where
  "negate NaN = NaN"
| "negate PosInf = NegInf"
| "negate NegInf = PosInf"
| "negate (Fin q) = Fin (- q)"

definition str_decimal :: "string \<Rightarrow> jsnum" where
  "str_decimal t =
     (case t of
        [] \<Rightarrow> NaN
      | c # r \<Rightarrow>
          if c = CHR ''+'' then unsigned_literal r
          else if c = CHR ''-'' then negate (unsigned_literal r)
          else unsigned_literal t)"

definition non_decimal :: "string \<Rightarrow> nat option" where
  "non_decimal t =
     (case t of
        z # x # ds \<Rightarrow>
          if z \<noteq> CHR ''0'' then None
          else
            (let b = (if x = CHR ''x'' \<or> x = CHR ''X'' then 16
                      else if x = CHR ''o'' \<or> x = CHR ''O'' then 8
                      else if x = CHR ''b'' \<or> x = CHR ''B'' then 2 else (0 :: nat))
             in if b \<noteq> 0 \<and> all_digits b ds then Some (digits_value b ds) else None)
      | _ \<Rightarrow> None)"

fun js_Number :: "string option \<Rightarrow> jsnum" where
  "js_Number None = NaN"
| "js_Number (Some s) =
     (let t = trim s
      in if t = [] then Fin 0
         else case non_decimal t of
                Some n \<Rightarrow> to_double (of_nat n)
              | None \<Rightarrow> str_decimal t)"

subsection \<open>\<^verbatim>\<open>split("-")\<close> and indexing\<close>

text \<open>
  \<^verbatim>\<open>s.split("-")\<close> cuts at every hyphen and always returns at least one part.
  Reading an array past its end gives \<^verbatim>\<open>undefined\<close>.
\<close>

fun js_split :: "string \<Rightarrow> string list" where
  "js_split [] = [[]]"
| "js_split (c # cs) =
     (if c = CHR ''-'' then [] # js_split cs
      else (case js_split cs of [] \<Rightarrow> [[c]] | p # ps \<Rightarrow> (c # p) # ps))"

definition at_index :: "'a list \<Rightarrow> nat \<Rightarrow> 'a option" where
  "at_index xs i = (if i < length xs then Some (xs ! i) else None)"

section \<open>The service\<close>

datatype error =
    YouTubeIdNotFound
  | FlagSecretNotSet
  | InvalidFlagId
  | GristError string

subsection \<open>\<^verbatim>\<open>parseYouTubeId\<close>\<close>

text \<open>
  The regular expression \<^verbatim>\<open>/youtube:\s*["']?([a-zA-Z0-9_-]+)/\<close>. The three classes
  (white space, quotes, identifier characters) are disjoint, so at a given start the
  greedy match is the only one: giving back a space or the quote leaves a character
  that nothing after it accepts. \<^verbatim>\<open>match\<close> returns the leftmost start that matches.
\<close>

definition is_id_char :: "char \<Rightarrow> bool" where
  "is_id_char c =
     (c \<in> set (''abcdefghijklmnopqrstuvwxyz'' @ ''ABCDEFGHIJKLMNOPQRSTUVWXYZ'' @ ''0123456789_-''))"

definition is_quote :: "char \<Rightarrow> bool" where
  "is_quote c = (c = CHR 0x22 \<or> c = CHR 0x27)"

definition match_here :: "string \<Rightarrow> string option" where
  "match_here s =
     (if take 8 s = ''youtube:'' then
        (let r1 = dropWhile is_white (drop 8 s);
             r2 = (if r1 \<noteq> [] \<and> is_quote (hd r1) then tl r1 else r1);
             group1 = takeWhile is_id_char r2
         in if group1 = [] then None else Some group1)
      else None)"

fun regex_match :: "string \<Rightarrow> string option" where
  "regex_match [] = None"
| "regex_match (c # cs) =
     (case match_here (c # cs) of Some g \<Rightarrow> Some g | None \<Rightarrow> regex_match cs)"

definition parseYouTubeId :: "string \<Rightarrow> error + string" where
  "parseYouTubeId content =
     (case regex_match content of
        None \<Rightarrow> Inl YouTubeIdNotFound
      | Some g \<Rightarrow> Inr g)"

subsection \<open>\<^verbatim>\<open>createFlagId\<close>\<close>

text \<open>
  \<^verbatim>\<open>process.env\<close> is a map. \<^verbatim>\<open>createHmac("sha256", secret)\<close> of \<^verbatim>\<open>node:crypto\<close> is a
  parameter: a function from the key and the message to the 256-bit digest.
  \<^verbatim>\<open>digest("hex")\<close> writes the digest as 64 lowercase hexadecimal digits. The
  parameter \<open>id'\<close> is the source's \<^verbatim>\<open>id\<close>; it is \<open>None\<close> when the caller passes
  \<^verbatim>\<open>undefined\<close>, as \<^verbatim>\<open>result[0]\<close> of an empty array is.
\<close>

type_synonym env = "string \<rightharpoonup> string"

type_synonym hmac = "string \<Rightarrow> string \<Rightarrow> 256 word"

definition hex_char :: "nat \<Rightarrow> char" where
  "hex_char d = (if d < 10 then char_of (48 + d) else char_of (87 + d))"

definition digest_hex :: "256 word \<Rightarrow> string" where
  "digest_hex w = map (\<lambda>i. hex_char (unat w div 16 ^ i mod 16)) (rev [0..<64])"

definition createFlagId :: "env \<Rightarrow> hmac \<Rightarrow> jsnum option \<Rightarrow> error + string" where
  "createFlagId env hmac_sha256 id' =
     (case env ''FLAG_SECRET'' of
        None \<Rightarrow> Inl FlagSecretNotSet
      | Some secret \<Rightarrow>
          if secret = [] then Inl FlagSecretNotSet
          else Inr (''flag-'' @ js_String id' @ ''-''
                     @ digest_hex (hmac_sha256 secret (js_String id'))))"

subsection \<open>\<^verbatim>\<open>formatTime\<close>\<close>

definition formatTime :: "jsnum \<Rightarrow> string" where
  "formatTime t =
     (let h = padStart 2 CHR ''0'' (number_toString (js_floor (js_div t 3600)));
          m = padStart 2 CHR ''0'' (number_toString (js_floor (js_div (js_rem t 3600) 60)));
          s = padStart 2 CHR ''0'' (number_toString (js_floor (js_rem t 60)));
          ms = padStart 3 CHR ''0'' (number_toString (js_floor (js_rem (js_mul t 1000) 1000)))
      in h @ '':'' @ m @ '':'' @ s @ ''.'' @ ms)"

subsection \<open>The flag routes\<close>

text \<open>
  The record store \<^verbatim>\<open>grist\<close> is outside this file: its two calls are parameters acting
  on a store of any type, each returning an error message or its result, and the store
  after the call.
\<close>

record flag_row =
  row_vtt :: string
  row_timestamp :: string
  row_text :: string

record 's grist =
  addRecords :: "string \<Rightarrow> flag_row list \<Rightarrow> 's \<Rightarrow> (string + jsnum list) \<times> 's"
  deleteRecords :: "string \<Rightarrow> jsnum list \<Rightarrow> 's \<Rightarrow> (string + unit) \<times> 's"

record params =
  event :: string
  slug :: string
  lang :: string

record flag_params = params +
  flagId :: string

record flag_body =
  body_timestamp :: jsnum
  body_text :: string

text \<open>\<^verbatim>\<open>POST /flags/:event/:slug/:lang\<close>\<close>

definition new_row :: "params \<Rightarrow> flag_body \<Rightarrow> flag_row" where
  "new_row p body =
     \<lparr> row_vtt = event p @ ''/'' @ slug p @ ''_'' @ lang p @ ''.vtt'',
       row_timestamp = formatTime (js_div (body_timestamp body) 1000),
       row_text = body_text body \<rparr>"

definition post_flag ::
  "'s grist \<Rightarrow> env \<Rightarrow> hmac \<Rightarrow> params \<Rightarrow> flag_body \<Rightarrow> 's \<Rightarrow> (error + string) \<times> 's" where
  "post_flag g env hmac_sha256 p body store =
     (case addRecords g ''Flags'' [new_row p body] store of
        (Inl msg, store') \<Rightarrow> (Inl (GristError msg), store')
      | (Inr result, store') \<Rightarrow> (createFlagId env hmac_sha256 (at_index result 0), store'))"

text \<open>
  \<^verbatim>\<open>DELETE /flags/:event/:slug/:lang/:flagId\<close>. \<open>checkFlagId\<close> is the destructuring
  and the comparison that guard the deletion, the first two statements of the handler;
  it returns the \<^verbatim>\<open>Number(id)\<close> that the handler then deletes.
\<close>

definition checkFlagId :: "env \<Rightarrow> hmac \<Rightarrow> string \<Rightarrow> error + jsnum" where
  "checkFlagId env hmac_sha256 fid =
     (let parts = js_split fid;
          id' = at_index parts 1;
          signature = at_index parts 2
      in case createFlagId env hmac_sha256 (Some (js_Number id')) of
           Inl e \<Rightarrow> Inl e
         | Inr minted \<Rightarrow>
             if signature \<noteq> at_index (js_split minted) 2 then Inl InvalidFlagId
             else Inr (js_Number id'))"

definition delete_flag ::
  "'s grist \<Rightarrow> env \<Rightarrow> hmac \<Rightarrow> flag_params \<Rightarrow> 's \<Rightarrow> (error + bool) \<times> 's" where
  "delete_flag g env hmac_sha256 p store =
     (case checkFlagId env hmac_sha256 (flagId p) of
        Inl e \<Rightarrow> (Inl e, store)
      | Inr n \<Rightarrow>
          (case deleteRecords g ''Flags'' [n] store of
             (Inl msg, store') \<Rightarrow> (Inl (GristError msg), store')
           | (Inr u, store') \<Rightarrow> (Inr True, store')))"

subsection \<open>An instance for examples\<close>

text \<open>
  A secret, a stand-in for the keyed hash, and a record store that logs the deletions it
  is asked for. Every theorem below holds for any environment, hash and store; these
  only serve to run the handlers on concrete tokens.
\<close>

definition example_env :: env where
  "example_env = [''FLAG_SECRET'' \<mapsto> ''s3cret'', ''VIDEOS_PATH'' \<mapsto> ''/srv/videos'']"

definition example_hmac :: hmac where
  "example_hmac key msg = of_nat (foldl (\<lambda>a c. 31 * a + of_char c) 7 (key @ ''|'' @ msg))"

definition logging_grist :: "(string \<times> jsnum list) list grist" where
  "logging_grist =
     \<lparr> addRecords = (\<lambda>table rows log. (Inr [Fin 42], log)),
       deleteRecords = (\<lambda>table ids log. (Inr (), log @ [(table, ids)])) \<rparr>"

text \<open>The binary64 value of \<^verbatim>\<open>Number("0.0000001")\<close>, which prints as \<^verbatim>\<open>1e-7\<close>.\<close>

definition double_1em7 :: rat where
  "double_1em7 = 944473296573929 / 2 ^ 73"

section \<open>Facts about the number model\<close>

lemma pow2_pos [simp]: "0 < pow2 e"
  by (simp add: pow2_def power_int_def)

lemma pow2_nonzero [simp]: "pow2 e \<noteq> 0"
  using pow2_pos [of e] by linarith

lemma pow2_add: "pow2 (a + b) = pow2 a * pow2 b"
  by (simp add: pow2_def power_int_add)

lemma pow2_diff: "pow2 (a - b) = pow2 a / pow2 b"
  by (simp add: pow2_def power_int_diff)

lemma pow2_less_iff [simp]: "pow2 a < pow2 b \<longleftrightarrow> a < b"
  unfolding pow2_def
  by (metis less_irrefl linorder_neqE_linordered_idom numeral_One numeral_less_iff
      order_less_trans power_int_strict_increasing semiring_norm(76))

lemma pow2_le_iff [simp]: "pow2 a \<le> pow2 b \<longleftrightarrow> a \<le> b"
  by (metis linorder_not_less pow2_less_iff)

lemma pow2_numeral: "pow2 (numeral n) = 2 ^ numeral n"
  by (simp add: pow2_def)

lemma pow2_of_int: "0 \<le> k \<Longrightarrow> pow2 k = of_int (2 ^ nat k)"
  by (simp add: pow2_def power_int_def)

lemma bitlen_rat_bounds:
  assumes "0 < a"
  shows "pow2 (bitlen a - 1) \<le> of_int a" "of_int a < pow2 (bitlen a)"
proof -
  have b: "2 ^ nat (bitlen a - 1) \<le> a" "a < 2 ^ nat (bitlen a)"
    using bitlen_bounds [OF assms] by auto
  have ge: "1 \<le> bitlen a"
    using assms by (auto simp: bitlen_alt_def)
  have "(of_int (2 ^ nat (bitlen a - 1)) :: rat) \<le> of_int a"
    using b(1) of_int_le_iff by blast
  then show "pow2 (bitlen a - 1) \<le> of_int a"
    using ge by (simp add: pow2_def power_int_def)
  have "(of_int a :: rat) < of_int (2 ^ nat (bitlen a))"
    using b(2) of_int_less_iff by blast
  then show "of_int a < pow2 (bitlen a)"
    using ge by (simp add: pow2_def power_int_def)
qed

lemma ilog2_bounds:
  assumes "0 < q"
  shows "pow2 (ilog2 q) \<le> q" and "q < pow2 (ilog2 q + 1)"
proof -
  obtain a b where ab: "quotient_of q = (a, b)" by (cases "quotient_of q")
  then have bpos: "0 < b" and q: "q = of_int a / of_int b"
    using quotient_of_denom_pos quotient_of_div by auto
  have apos: "0 < a"
    using assms bpos q by (simp add: zero_less_divide_iff)
  let ?e = "bitlen a - bitlen b"
  have up: "q < pow2 (?e + 1)"
  proof -
    have "q < pow2 (bitlen a) / of_int b"
      unfolding q using bitlen_rat_bounds(2) [OF apos] bpos by (simp add: divide_strict_right_mono)
    also have "\<dots> \<le> pow2 (bitlen a) / pow2 (bitlen b - 1)"
      using bitlen_rat_bounds(1) [OF bpos] by (intro frac_le) (auto simp: less_imp_le)
    also have "\<dots> = pow2 (?e + 1)"
      by (simp add: pow2_diff [symmetric] algebra_simps)
    finally show ?thesis .
  qed
  have lo: "pow2 (?e - 1) \<le> q"
  proof -
    have "pow2 (?e - 1) = pow2 (bitlen a - 1) / pow2 (bitlen b)"
      by (simp add: pow2_diff [symmetric] algebra_simps)
    also have "\<dots> \<le> of_int a / of_int b"
      using bitlen_rat_bounds(1) [OF apos] bitlen_rat_bounds(2) [OF bpos] bpos apos
      by (intro frac_le) (auto simp: less_imp_le)
    finally show ?thesis by (simp add: q)
  qed
  show "pow2 (ilog2 q) \<le> q"
    using lo by (simp add: ilog2_def ab Let_def)
  show "q < pow2 (ilog2 q + 1)"
    using up by (auto simp: ilog2_def ab Let_def)
qed

lemma ilog2_eq:
  assumes "pow2 e \<le> q" "q < pow2 (e + 1)"
  shows "ilog2 q = e"
proof -
  have "0 < q" using assms(1) pow2_pos [of e] by linarith
  from ilog2_bounds [OF this] assms
  have "pow2 (ilog2 q) < pow2 (e + 1)" "pow2 e < pow2 (ilog2 q + 1)"
    by linarith+
  then show ?thesis by simp
qed

lemma ilog2_mono:
  assumes "0 < a" "a \<le> b"
  shows "ilog2 a \<le> ilog2 b"
proof -
  have "0 < b" using assms by linarith
  from ilog2_bounds(1) [OF assms(1)] ilog2_bounds(2) [OF this] assms(2)
  have "pow2 (ilog2 a) < pow2 (ilog2 b + 1)" by linarith
  then show ?thesis by simp
qed

lemma ilog2_ge:
  assumes "pow2 k \<le> a"
  shows "k \<le> ilog2 a"
proof -
  have "0 < a" using assms pow2_pos [of k] by linarith
  from ilog2_bounds(2) [OF this] assms have "pow2 k < pow2 (ilog2 a + 1)" by linarith
  then show ?thesis by simp
qed

lemma ilog2_less:
  assumes "0 < a" "a < pow2 k"
  shows "ilog2 a < k"
proof -
  from ilog2_bounds(1) [OF assms(1)] assms(2) have "pow2 (ilog2 a) < pow2 k" by linarith
  then show ?thesis by simp
qed

subsection \<open>Rounding to an integer\<close>

lemma round_half_even_of_int [simp]: "round_half_even (of_int n) = n"
  by (simp add: round_half_even_def)

lemma round_half_even_cases:
  "round_half_even x = \<lfloor>x\<rfloor> \<or> round_half_even x = \<lfloor>x\<rfloor> + 1"
  by (simp add: round_half_even_def Let_def)

lemma round_half_even_mono:
  assumes "x \<le> y"
  shows "round_half_even x \<le> round_half_even y"
proof (cases "\<lfloor>x\<rfloor> < \<lfloor>y\<rfloor>")
  case True
  have "round_half_even x \<le> \<lfloor>x\<rfloor> + 1"
    using round_half_even_cases [of x] by auto
  moreover have "\<lfloor>y\<rfloor> \<le> round_half_even y"
    using round_half_even_cases [of y] by auto
  ultimately show ?thesis using True by linarith
next
  case False
  then have eq: "\<lfloor>x\<rfloor> = \<lfloor>y\<rfloor>"
    using assms floor_mono [of x y] by linarith
  then have "x - of_int \<lfloor>x\<rfloor> \<le> y - of_int \<lfloor>y\<rfloor>"
    using assms by simp
  then show ?thesis
    by (auto simp: round_half_even_def Let_def eq)
qed

subsection \<open>Rounding to binary64\<close>

lemma ulp_pos [simp]: "0 < ulp a"
  by (simp add: ulp_def)

lemma nearest_nonneg: "0 \<le> a \<Longrightarrow> 0 \<le> nearest a"
proof -
  assume "0 \<le> a"
  then have "0 \<le> a / ulp a"
    using ulp_pos [of a] by (simp add: less_imp_le)
  then have "round_half_even 0 \<le> round_half_even (a / ulp a)"
    by (rule round_half_even_mono)
  then show ?thesis
    using ulp_pos [of a] by (simp add: nearest_def round_half_even_def less_imp_le)
qed

lemma nearest_eval:
  assumes "pow2 e \<le> a" "a < pow2 (e + 1)" "- 1022 \<le> e"
  shows "nearest a = of_int (round_half_even (a / pow2 (e - 52))) * pow2 (e - 52)"
  using assms(3) by (simp add: nearest_def ulp_def ilog2_eq [OF assms(1,2)] max_def)

text \<open>A value with a significand of at most 53 bits on the grid is not changed.\<close>

lemma nearest_exact:
  assumes "0 < m" "m < 2 ^ 53" "- 1074 \<le> k"
  shows "nearest (of_int m * pow2 k) = of_int m * pow2 k"
proof -
  let ?a = "of_int m * pow2 k :: rat"
  have pos: "0 < ?a" using assms(1) by simp
  have "(of_int m :: rat) < of_int (2 ^ 53)"
    using assms(2) of_int_less_iff by blast
  then have "?a < pow2 53 * pow2 k"
    by (intro mult_strict_right_mono) (simp_all add: pow2_def)
  then have "?a < pow2 (53 + k)"
    by (simp add: pow2_add)
  from ilog2_less [OF pos this] have "ilog2 ?a - 52 \<le> k" by simp
  define u where "u = max (ilog2 ?a) (- 1022) - 52"
  have uk: "u \<le> k"
    using \<open>ilog2 ?a - 52 \<le> k\<close> assms(3) by (simp add: u_def)
  have ulp: "ulp ?a = pow2 u"
    by (simp add: ulp_def u_def)
  have "pow2 k = pow2 (k - u) * pow2 u"
    by (simp add: pow2_add [symmetric])
  then have split: "pow2 k = of_int (2 ^ nat (k - u)) * pow2 u"
    using uk pow2_of_int [of "k - u"] by simp
  have "?a / ulp ?a = of_int m * pow2 k / pow2 u"
    by (simp only: ulp)
  also have "\<dots> = of_int (m * 2 ^ nat (k - u))"
    by (subst split) simp
  finally have "round_half_even (?a / ulp ?a) = m * 2 ^ nat (k - u)"
    by (simp only: round_half_even_of_int)
  then have "nearest ?a = of_int (m * 2 ^ nat (k - u)) * pow2 u"
    by (simp only: nearest_def ulp)
  also have "\<dots> = of_int m * (of_int (2 ^ nat (k - u)) * pow2 u)"
    by simp
  also have "\<dots> = ?a"
    by (simp only: split [symmetric])
  finally show ?thesis .
qed

lemma nearest_zero [simp]: "nearest 0 = 0"
  by (simp add: nearest_def round_half_even_def)

lemma nearest_of_nat: "n < 2 ^ 53 \<Longrightarrow> nearest (of_nat n) = of_nat n"
proof (cases "n = 0")
  case True
  then show ?thesis by simp
next
  case False
  assume "n < 2 ^ 53"
  then have "int n < 2 ^ 53" by (metis of_nat_less_iff of_nat_numeral of_nat_power)
  with nearest_exact [of "int n" 0] False show ?thesis
    by (simp add: pow2_def)
qed

text \<open>Within a binade the rounded value stays in the closed binade.\<close>

lemma nearest_binade:
  assumes "pow2 e \<le> a" "a < pow2 (e + 1)" "- 1022 \<le> e"
  shows "pow2 e \<le> nearest a" "nearest a \<le> pow2 (e + 1)"
proof -
  have n: "nearest a = of_int (round_half_even (a / pow2 (e - 52))) * pow2 (e - 52)"
    by (rule nearest_eval [OF assms])
  have lo: "(of_int (2 ^ 52) :: rat) \<le> a / pow2 (e - 52)"
  proof -
    have "pow2 e / pow2 (e - 52) \<le> a / pow2 (e - 52)"
      using assms(1) by (simp add: divide_right_mono less_imp_le)
    moreover have "pow2 e / pow2 (e - 52) = pow2 52"
      by (simp add: pow2_diff [symmetric])
    ultimately show ?thesis by (simp add: pow2_numeral)
  qed
  have hi: "a / pow2 (e - 52) \<le> (of_int (2 ^ 53) :: rat)"
  proof -
    have "a / pow2 (e - 52) \<le> pow2 (e + 1) / pow2 (e - 52)"
      using assms(2) by (simp add: divide_right_mono less_imp_le)
    moreover have "pow2 (e + 1) / pow2 (e - 52) = pow2 53"
      by (simp add: pow2_diff [symmetric])
    ultimately show ?thesis by (simp add: pow2_numeral)
  qed
  have "2 ^ 52 \<le> round_half_even (a / pow2 (e - 52))"
    using round_half_even_mono [OF lo] by (simp only: round_half_even_of_int)
  then have "(of_int (2 ^ 52) :: rat) * pow2 (e - 52) \<le> nearest a"
    unfolding n by (intro mult_right_mono) (simp_all add: less_imp_le del: of_int_power)
  moreover have "(of_int (2 ^ 52) :: rat) * pow2 (e - 52) = pow2 e"
    using pow2_add [of 52 "e - 52"] by (simp add: pow2_numeral)
  ultimately show "pow2 e \<le> nearest a" by simp
  have "round_half_even (a / pow2 (e - 52)) \<le> 2 ^ 53"
    using round_half_even_mono [OF hi] by (simp only: round_half_even_of_int)
  then have "nearest a \<le> (of_int (2 ^ 53) :: rat) * pow2 (e - 52)"
    unfolding n by (intro mult_right_mono) (simp_all add: less_imp_le del: of_int_power)
  moreover have "(of_int (2 ^ 53) :: rat) * pow2 (e - 52) = pow2 (e + 1)"
    using pow2_add [of 53 "e - 52"] by (simp add: pow2_numeral add.commute)
  ultimately show "nearest a \<le> pow2 (e + 1)" by simp
qed

text \<open>Below the normal range the spacing is that of the last binade.\<close>

lemma nearest_subnormal:
  assumes "0 < a" "a < pow2 (- 1022)"
  shows "nearest a \<le> pow2 (- 1022)"
proof -
  have e: "ilog2 a < - 1022" by (rule ilog2_less [OF assms])
  then have u: "ulp a = pow2 (- 1074)" by (simp add: ulp_def max_def)
  have "a / pow2 (- 1074) \<le> pow2 (- 1022) / pow2 (- 1074)"
    using assms(2) by (simp add: divide_right_mono less_imp_le)
  moreover have "pow2 (- 1022) / pow2 (- 1074) = pow2 52"
    by (simp add: pow2_diff [symmetric])
  ultimately have "a / pow2 (- 1074) \<le> (of_int (2 ^ 52) :: rat)"
    by (simp add: pow2_numeral)
  from round_half_even_mono [OF this]
  have "round_half_even (a / pow2 (- 1074)) \<le> 2 ^ 52"
    by (simp only: round_half_even_of_int)
  then have "nearest a \<le> (of_int (2 ^ 52) :: rat) * pow2 (- 1074)"
    unfolding nearest_def u
    by (intro mult_right_mono) (simp_all add: less_imp_le del: of_int_power)
  moreover have "(of_int (2 ^ 52) :: rat) * pow2 (- 1074) = pow2 (- 1022)"
    using pow2_add [of 52 "- 1074"] by (simp add: pow2_numeral)
  ultimately show ?thesis by simp
qed

lemma nearest_mono:
  assumes "0 < a" "a \<le> b"
  shows "nearest a \<le> nearest b"
proof -
  have bpos: "0 < b" using assms by linarith
  define ea where "ea = max (ilog2 a) (- 1022)"
  define eb where "eb = max (ilog2 b) (- 1022)"
  have le: "ea \<le> eb"
    using ilog2_mono [OF assms] by (simp add: ea_def eb_def)
  show ?thesis
  proof (cases "ea = eb")
    case True
    then have u: "ulp a = ulp b" by (simp add: ulp_def ea_def eb_def)
    have "a / ulp b \<le> b / ulp b"
      using assms(2) by (simp add: divide_right_mono less_imp_le)
    then have "round_half_even (a / ulp b) \<le> round_half_even (b / ulp b)"
      by (rule round_half_even_mono)
    then have "(of_int (round_half_even (a / ulp b)) :: rat) * ulp b
        \<le> of_int (round_half_even (b / ulp b)) * ulp b"
      by (intro mult_right_mono) (simp_all add: less_imp_le)
    then show ?thesis
      by (simp add: nearest_def u)
  next
    case False
    then have lt: "ea < eb" using le by simp
    then have ebn: "eb = ilog2 b" "- 1022 \<le> ilog2 b" "- 1022 < eb"
      by (auto simp: ea_def eb_def max_def split: if_splits)
    have "nearest a \<le> pow2 (ea + 1)"
    proof (cases "- 1022 \<le> ilog2 a")
      case True
      then have "ea = ilog2 a" by (simp add: ea_def)
      with nearest_binade(2) [OF ilog2_bounds [OF assms(1)] True] show ?thesis by simp
    next
      case False
      then have ea: "ea = - 1022" by (simp add: ea_def)
      have "a < pow2 (ilog2 a + 1)" by (rule ilog2_bounds(2) [OF assms(1)])
      also have "\<dots> \<le> pow2 (- 1022)" using False by simp
      finally have "nearest a \<le> pow2 (- 1022)"
        by (rule nearest_subnormal [OF assms(1)])
      also have "\<dots> \<le> pow2 (ea + 1)" by (simp add: ea)
      finally show ?thesis .
    qed
    also have "\<dots> \<le> pow2 eb" using lt by simp
    also have "\<dots> \<le> nearest b"
      using nearest_binade(1) [OF ilog2_bounds [OF bpos] ebn(2)] ebn(1) by simp
    finally show ?thesis .
  qed
qed

lemma nearest_mono0: "0 \<le> a \<Longrightarrow> a \<le> b \<Longrightarrow> nearest a \<le> nearest b"
  using nearest_mono [of a b] nearest_nonneg [of b]
  by (cases "a = 0") simp_all

text \<open>From \<open>pow2 k\<close> on, every rounded value is a multiple of \<open>pow2 (k - 52)\<close>.\<close>

lemma nearest_grid:
  assumes "pow2 k \<le> a" "- 1022 \<le> k"
  shows "\<exists>M. nearest a = of_int M * pow2 (k - 52)"
proof -
  have ke: "k \<le> ilog2 a" by (rule ilog2_ge [OF assms(1)])
  then have "max (ilog2 a) (- 1022) = ilog2 a"
    using assms(2) by simp
  then have u: "ulp a = pow2 (ilog2 a - 52)"
    by (simp add: ulp_def)
  have "pow2 (ilog2 a - 52) = pow2 (ilog2 a - k) * pow2 (k - 52)"
    by (simp add: pow2_add [symmetric])
  then have "pow2 (ilog2 a - 52) = of_int (2 ^ nat (ilog2 a - k)) * pow2 (k - 52)"
    using ke pow2_of_int [of "ilog2 a - k"] by simp
  then have "nearest a
      = of_int (round_half_even (a / ulp a) * 2 ^ nat (ilog2 a - k)) * pow2 (k - 52)"
    by (simp add: nearest_def u)
  then show ?thesis by blast
qed

lemma to_double_nonneg:
  assumes "0 \<le> a" "nearest a < pow2 1024"
  shows "to_double a = Fin (nearest a)"
  using assms by (auto simp: to_double_def)

lemma to_double_of_nat:
  assumes "n < 2 ^ 53"
  shows "to_double (of_nat n) = Fin (of_nat n)"
proof -
  have "(of_nat n :: rat) < pow2 53"
    using assms by (simp add: pow2_numeral)
  also have "\<dots> < pow2 1024" by simp
  finally show ?thesis
    using to_double_nonneg [of "of_nat n"] by (simp add: nearest_of_nat [OF assms])
qed

section \<open>Facts about the string operations\<close>

lemma js_split_nonempty: "js_split s \<noteq> []"
  by (induction s) (auto split: list.splits)

lemma js_split_no_hyphen: "CHR ''-'' \<notin> set s \<Longrightarrow> js_split s = [s]"
  by (induction s) auto

lemma js_split_append:
  "CHR ''-'' \<notin> set p \<Longrightarrow> js_split (p @ CHR ''-'' # r) = p # js_split r"
  by (induction p) auto

lemma hex_char_not_hyphen: "hex_char d \<noteq> CHR ''-''" if "d < 16"
proof
  assume "hex_char d = CHR ''-''"
  then have "(of_char (hex_char d) :: nat) = of_char CHR ''-''" by simp
  with that show False by (simp add: hex_char_def split: if_splits)
qed

lemma digest_hex_no_hyphen: "CHR ''-'' \<notin> set (digest_hex w)"
  by (auto simp: digest_hex_def dest!: sym [of "CHR ''-''"] simp: hex_char_not_hyphen)

lemma length_digest_hex: "length (digest_hex w) = 64"
  by (simp add: digest_hex_def)

lemma split_minted:
  "CHR ''-'' \<notin> set a \<Longrightarrow>
   js_split (''flag-'' @ a @ ''-'' @ digest_hex w) = [''flag'', a, digest_hex w]"
  using js_split_append [of "''flag''" "a @ ''-'' @ digest_hex w"]
        js_split_append [of a "digest_hex w"]
  by (simp add: js_split_no_hyphen digest_hex_no_hyphen)

lemmas eval_chars = digit_char_def hex_char_def char_of_def bit_0

lemma at_index_simps:
  "at_index [] i = None"
  "at_index (x # xs) 0 = Some x"
  "at_index (x # xs) (Suc i) = at_index xs i"
  "at_index (x # xs) 1 = at_index xs 0"
  "at_index (x # xs) 2 = at_index xs (Suc 0)"
  by (simp_all add: at_index_def)

lemma checkFlagId_tail:
  "checkFlagId env h fid =
     (let id' = at_index (tl (js_split fid)) 0; signature = at_index (tl (js_split fid)) 1
      in case createFlagId env h (Some (js_Number id')) of
           Inl e \<Rightarrow> Inl e
         | Inr minted \<Rightarrow>
             if signature \<noteq> at_index (js_split minted) 2 then Inl InvalidFlagId
             else Inr (js_Number id'))"
proof -
  obtain p ps where "js_split fid = p # ps"
    using js_split_nonempty [of fid] by (cases "js_split fid") auto
  then show ?thesis
    by (simp add: checkFlagId_def Let_def at_index_simps split: sum.splits)
qed

lemma radix_digit_digit_char: "d < 10 \<Longrightarrow> radix_digit 10 (digit_char d) = Some d"
  by (simp add: radix_digit_def digit_char_def Let_def)

lemma is_digit_digit_char: "d < 10 \<Longrightarrow> is_digit (digit_char d)"
  by (simp add: is_digit_def radix_digit_digit_char)

lemma dec_of_nat_digits: "list_all is_digit (dec_of_nat n)"
  by (induction n rule: dec_of_nat.induct)
     (subst dec_of_nat.simps, auto simp: is_digit_digit_char)

lemma dec_of_nat_nonempty: "dec_of_nat n \<noteq> []"
  by (subst dec_of_nat.simps) simp

lemma digits_value_snoc:
  "digits_value b (ds @ [c]) =
     digits_value b ds * b + (case radix_digit b c of None \<Rightarrow> 0 | Some d \<Rightarrow> d)"
  by (simp add: digits_value_def)

lemma digits_value_dec_of_nat: "digits_value 10 (dec_of_nat n) = n"
proof (induction n rule: dec_of_nat.induct)
  case (1 n)
  show ?case
  proof (cases "n < 10")
    case True
    then show ?thesis
      by (subst dec_of_nat.simps) (simp add: digits_value_def radix_digit_digit_char)
  next
    case False
    with 1 show ?thesis
      by (subst dec_of_nat.simps) (simp add: digits_value_snoc radix_digit_digit_char)
  qed
qed

lemma is_digit_not_white: "is_digit c \<Longrightarrow> \<not> is_white c"
  by (auto simp: is_digit_def radix_digit_def is_white_def Let_def split: if_splits)

lemma is_digit_not_special:
  assumes "is_digit c"
  shows "c \<notin> set ''-+xXoObBI.eE''"
proof
  assume "c \<in> set ''-+xXoObBI.eE''"
  then have "\<not> is_digit c"
    by (auto simp: is_digit_def radix_digit_def)
  with assms show False by simp
qed

lemma dec_of_nat_no_hyphen: "CHR ''-'' \<notin> set (dec_of_nat n)"
  using dec_of_nat_digits [of n] is_digit_not_special
  by (auto simp: list_all_iff)

lemma trim_id:
  assumes "s \<noteq> []" "\<not> is_white (hd s)" "\<not> is_white (last s)"
  shows "trim s = s"
proof -
  have "dropWhile is_white s = s"
    using assms(1,2) by (cases s) auto
  moreover have "dropWhile is_white (rev s) = rev s"
    using assms(1,3) by (cases "rev s") (auto simp: last_rev [symmetric] simp del: last_rev)
  ultimately show ?thesis by (simp add: trim_def)
qed

lemma js_Number_digits:
  assumes "ds \<noteq> []" "list_all is_digit ds"
  shows "js_Number (Some ds) = to_double (of_nat (digits_value 10 ds))"
proof -
  obtain c cs where ds: "ds = c # cs" using assms(1) by (cases ds) auto
  have c: "is_digit c" using assms(2) ds by simp
  have "is_digit (last ds)" using assms by (simp add: list_all_iff)
  then have t: "trim ds = ds"
    using assms(1) c ds by (intro trim_id) (auto simp: is_digit_not_white)
  have nd: "non_decimal ds = None"
  proof (cases cs)
    case Nil
    then show ?thesis by (simp add: non_decimal_def ds)
  next
    case (Cons x xs)
    then have "is_digit x" using assms(2) ds by simp
    from is_digit_not_special [OF this] show ?thesis
      by (simp add: non_decimal_def ds Cons)
  qed
  have inf: "ds \<noteq> ''Infinity''"
    using is_digit_not_special [OF c] by (auto simp: ds)
  have tw: "takeWhile is_digit ds = ds" "dropWhile is_digit ds = []"
    using assms(2) by (simp_all add: list_all_iff)
  have "unsigned_decimal ds = Some (of_nat (digits_value 10 ds))"
    by (simp add: unsigned_decimal_def tw Let_def assms(1) exponent_part_def pow10_def)
  then have "unsigned_literal ds = to_double (of_nat (digits_value 10 ds))"
    using inf by (simp add: unsigned_literal_def)
  then have "str_decimal ds = to_double (of_nat (digits_value 10 ds))"
    using is_digit_not_special [OF c] by (simp add: str_decimal_def ds)
  then show ?thesis
    using assms(1) by (simp add: t nd Let_def)
qed

lemma js_Number_dec_of_nat:
  "n < 2 ^ 53 \<Longrightarrow> js_Number (Some (dec_of_nat n)) = Fin (of_nat n)"
  using js_Number_digits [OF dec_of_nat_nonempty dec_of_nat_digits, of n]
  by (simp only: digits_value_dec_of_nat to_double_of_nat)

lemma number_toString_of_nat:
  assumes "n < 2 ^ 53"
  shows "number_toString (Fin (of_nat n)) = dec_of_nat n"
proof (cases "n = 0")
  case True
  then show ?thesis by (simp add: dec_of_nat.simps digit_char_def char_of_def bit_0)
next
  case False
  have "(of_nat n :: rat) < 2 ^ 53"
    using assms by (metis of_nat_less_iff of_nat_numeral of_nat_power)
  moreover have "of_int \<lfloor>of_nat n :: rat\<rfloor> = (of_nat n :: rat)" by simp
  ultimately show ?thesis
    using False by (simp add: pos_toString_def)
qed

lemma number_toString_of_int:
  assumes "\<bar>i\<bar> < 2 ^ 53"
  shows "number_toString (Fin (of_int i)) = dec_of_int i"
proof (cases "0 \<le> i")
  case True
  then have "number_toString (Fin (of_nat (nat i))) = dec_of_nat (nat i)"
    using assms by (intro number_toString_of_nat) (simp add: nat_less_iff)
  then show ?thesis using True by (simp add: dec_of_int_def)
next
  case False
  then have "number_toString (Fin (of_nat (nat (- i)))) = dec_of_nat (nat (- i))"
    using assms by (intro number_toString_of_nat) (simp add: nat_less_iff)
  moreover have "(of_nat (nat (- i)) :: rat) = - of_int i"
    using False by simp
  ultimately have "pos_toString (- of_int i) = dec_of_nat (nat (- i))"
    using False by (simp split: if_splits)
  then show ?thesis using False by (simp add: dec_of_int_def)
qed

section \<open>Minting and checking tokens\<close>

lemma length_js_split: "length (js_split s) = Suc (length (filter (\<lambda>c. c = CHR ''-'') s))"
  by (induction s) (auto split: list.splits simp: js_split_nonempty)

lemma createFlagId_Some:
  assumes "env ''FLAG_SECRET'' = Some secret" "secret \<noteq> []"
  shows "createFlagId env h x
         = Inr (''flag-'' @ js_String x @ ''-'' @ digest_hex (h secret (js_String x)))"
  using assms by (simp add: createFlagId_def)

lemma minted_has_three_parts:
  "\<exists>sig. at_index (js_split (''flag-'' @ a @ ''-'' @ b)) 2 = Some sig"
proof -
  have "2 < length (js_split (''flag-'' @ a @ ''-'' @ b))"
    by (simp add: length_js_split)
  then show ?thesis by (simp add: at_index_def)
qed

lemma checkFlagId_Some:
  assumes "env ''FLAG_SECRET'' = Some secret" "secret \<noteq> []"
  shows "checkFlagId env h fid =
     (let x = js_Number (at_index (js_split fid) 1);
          minted = ''flag-'' @ number_toString x @ ''-'' @ digest_hex (h secret (number_toString x))
      in if at_index (js_split fid) 2 \<noteq> at_index (js_split minted) 2 then Inl InvalidFlagId
         else Inr x)"
  by (simp add: checkFlagId_def createFlagId_Some [where env = env and secret = secret, OF assms] Let_def)

lemma checkFlagId_no_hyphen:
  assumes "env ''FLAG_SECRET'' = Some secret" "secret \<noteq> []"
    and "CHR ''-'' \<notin> set (number_toString (js_Number (at_index (js_split fid) 1)))"
  shows "checkFlagId env h fid =
     (if at_index (js_split fid) 2
           = Some (digest_hex (h secret (number_toString (js_Number (at_index (js_split fid) 1)))))
      then Inr (js_Number (at_index (js_split fid) 1)) else Inl InvalidFlagId)"
  using split_minted [OF assms(3)]
  by (simp add: checkFlagId_Some [where env = env and secret = secret, OF assms(1,2)] Let_def at_index_def)

lemma checkFlagId_short:
  assumes "env ''FLAG_SECRET'' = Some secret" "secret \<noteq> []"
    and "length (js_split fid) < 3"
  shows "checkFlagId env h fid = Inl InvalidFlagId"
proof -
  have "at_index (js_split fid) 2 = None"
    using assms(3) by (simp add: at_index_def)
  then show ?thesis
    using minted_has_three_parts
    by (simp add: checkFlagId_Some [where env = env and secret = secret, OF assms(1,2)] Let_def) (metis option.distinct(1))
qed

lemma minted_token_accepted:
  assumes "env ''FLAG_SECRET'' = Some secret" "secret \<noteq> []" and "n < 2 ^ 53"
  shows "createFlagId env h (Some (Fin (of_nat n)))
           = Inr (''flag-'' @ dec_of_nat n @ ''-'' @ digest_hex (h secret (dec_of_nat n)))"
    and "checkFlagId env h (''flag-'' @ dec_of_nat n @ ''-'' @ digest_hex (h secret (dec_of_nat n)))
           = Inr (Fin (of_nat n))"
proof -
  define d where "d = dec_of_nat n"
  define token where "token = ''flag-'' @ d @ ''-'' @ digest_hex (h secret d)"
  have str: "number_toString (Fin (of_nat n)) = d"
    unfolding d_def using assms(3) by (rule number_toString_of_nat)
  have mint: "createFlagId env h (Some (Fin (of_nat n))) = Inr token"
    by (simp add: createFlagId_Some [where env = env and secret = secret, OF assms(1,2)]
        str token_def del: number_toString.simps)
  have parts: "js_split token = [''flag'', d, digest_hex (h secret d)]"
    unfolding token_def d_def by (rule split_minted [OF dec_of_nat_no_hyphen])
  have num: "js_Number (Some d) = Fin (of_nat n)"
    unfolding d_def using assms(3) by (rule js_Number_dec_of_nat)
  have "CHR ''-'' \<notin> set (number_toString (js_Number (at_index (js_split token) 1)))"
    using dec_of_nat_no_hyphen [of n, folded d_def]
    by (simp add: parts at_index_simps num str del: number_toString.simps js_Number.simps)
  from checkFlagId_no_hyphen [where env = env and secret = secret, OF assms(1,2) this]
  have chk: "checkFlagId env h token = Inr (Fin (of_nat n))"
    by (simp add: parts at_index_simps num str del: number_toString.simps js_Number.simps)
  show "createFlagId env h (Some (Fin (of_nat n)))
      = Inr (''flag-'' @ dec_of_nat n @ ''-'' @ digest_hex (h secret (dec_of_nat n)))"
    using mint by (simp only: token_def d_def)
  show "checkFlagId env h (''flag-'' @ dec_of_nat n @ ''-'' @ digest_hex (h secret (dec_of_nat n)))
      = Inr (Fin (of_nat n))"
    using chk by (simp only: token_def d_def)
qed

lemma dec_of_nat_42: "dec_of_nat 42 = ''42''"
  by (simp add: dec_of_nat.simps eval_chars)

lemma example_secret: "example_env ''FLAG_SECRET'' = Some ''s3cret''"
  by (simp add: example_env_def)

lemma check_deadbeef:
  "checkFlagId example_env example_hmac ''flag-42-deadbeef'' = Inl InvalidFlagId"
proof -
  have parts: "js_split ''flag-42-deadbeef'' = [''flag'', ''42'', ''deadbeef'']"
    by simp
  have num: "js_Number (Some ''42'') = Fin 42"
    using js_Number_dec_of_nat [of 42] by (simp add: dec_of_nat_42 del: js_Number.simps)
  have str: "number_toString (Fin 42) = ''42''"
    using number_toString_of_nat [of 42] by (simp add: dec_of_nat_42 del: number_toString.simps)
  have "length ''deadbeef'' \<noteq> length (digest_hex (example_hmac ''s3cret'' ''42''))"
    by (simp add: length_digest_hex)
  then have "''deadbeef'' \<noteq> digest_hex (example_hmac ''s3cret'' ''42'')"
    by metis
  then show ?thesis
    by (subst checkFlagId_no_hyphen [where secret = "''s3cret''"])
       (simp_all add: example_secret parts at_index_simps num str
          del: js_Number.simps number_toString.simps js_split.simps)
qed

lemma js_Number_abc: "js_Number (Some ''abc'') = NaN"
  by (simp add: trim_def is_white_def non_decimal_def str_decimal_def unsigned_literal_def
      unsigned_decimal_def is_digit_def radix_digit_def Let_def)

lemma check_forged_NaN:
  "checkFlagId example_env example_hmac
     (''flag-abc-'' @ digest_hex (example_hmac ''s3cret'' ''NaN'')) = Inr NaN"
proof -
  define hex where "hex = digest_hex (example_hmac ''s3cret'' ''NaN'')"
  define token where "token = ''flag-abc-'' @ hex"
  have "js_split hex = [hex]"
    unfolding hex_def by (rule js_split_no_hyphen [OF digest_hex_no_hyphen])
  then have parts: "js_split token = [''flag'', ''abc'', hex]"
    by (simp add: token_def)
  have "checkFlagId example_env example_hmac token = Inr NaN"
    by (subst checkFlagId_no_hyphen [where secret = "''s3cret''"])
       (simp_all add: example_secret parts at_index_simps js_Number_abc hex_def
          del: js_Number.simps js_split.simps)
  then show ?thesis by (simp add: token_def hex_def)
qed

section \<open>Facts about the regular expression\<close>

lemma is_id_char_not_white: "is_id_char c \<Longrightarrow> \<not> is_white c"
  by (auto simp: is_id_char_def is_white_def)

lemma is_id_char_not_quote: "is_id_char c \<Longrightarrow> \<not> is_quote c"
  by (auto simp: is_id_char_def is_quote_def)

lemma is_quote_not_white: "is_quote c \<Longrightarrow> \<not> is_white c"
  by (auto simp: is_quote_def is_white_def)

lemma dropWhile_white_prefix:
  assumes "list_all is_white ws" "r \<noteq> []" "\<not> is_white (hd r)"
  shows "dropWhile is_white (ws @ r) = r"
  using assms by (induction ws) (auto simp: neq_Nil_conv)

lemma takeWhile_id_prefix:
  assumes "list_all is_id_char tok" "rest = [] \<or> \<not> is_id_char (hd rest)"
  shows "takeWhile is_id_char (tok @ rest) = tok"
  using assms by (induction tok) (auto simp: neq_Nil_conv takeWhile_eq_Nil_iff)

lemma match_here_key:
  assumes "list_all is_white ws"
    and "q = [] \<or> (\<exists>c. q = [c] \<and> is_quote c)"
    and "tok \<noteq> []" "list_all is_id_char tok"
    and "rest = [] \<or> \<not> is_id_char (hd rest)"
  shows "match_here (''youtube:'' @ ws @ q @ tok @ rest) = Some tok"
proof -
  obtain t ts where tok: "tok = t # ts" using assms(3) by (cases tok) auto
  have t: "is_id_char t" using assms(4) tok by simp
  have nw: "q @ tok @ rest \<noteq> []" "\<not> is_white (hd (q @ tok @ rest))"
    using assms(2) t tok by (auto simp: is_id_char_not_white is_quote_not_white)
  have r1: "dropWhile is_white (ws @ q @ tok @ rest) = q @ tok @ rest"
    by (rule dropWhile_white_prefix [OF assms(1) nw])
  have r2: "(if q @ tok @ rest \<noteq> [] \<and> is_quote (hd (q @ tok @ rest))
             then tl (q @ tok @ rest) else q @ tok @ rest) = tok @ rest"
    using assms(2) t tok by (auto simp: is_id_char_not_quote)
  have g: "takeWhile is_id_char (tok @ rest) = tok"
    by (rule takeWhile_id_prefix [OF assms(4,5)])
  define body where "body = ws @ q @ tok @ rest"
  have key: "take 8 (''youtube:'' @ body) = ''youtube:''" "drop 8 (''youtube:'' @ body) = body"
    by simp_all
  have "match_here (''youtube:'' @ body) = Some tok"
    unfolding match_here_def key Let_def
    unfolding body_def r1 r2 g using assms(3) by simp
  then show ?thesis by (simp only: body_def)
qed

lemma match_here_no_key: "take 8 s \<noteq> ''youtube:'' \<Longrightarrow> match_here s = None"
  by (simp add: match_here_def)

lemma regex_match_here: "match_here s = Some g \<Longrightarrow> regex_match s = Some g"
  by (cases s) (auto simp: match_here_def)

lemma regex_match_skip:
  "\<forall>i<length pre. take 8 (drop i (pre @ s)) \<noteq> ''youtube:'' \<Longrightarrow>
   regex_match (pre @ s) = regex_match s"
proof (induction pre)
  case Nil
  then show ?case by simp
next
  case (Cons c pre)
  have "take 8 (drop 0 ((c # pre) @ s)) \<noteq> ''youtube:''"
    using Cons.prems by blast
  then have here: "match_here (c # pre @ s) = None"
    by (intro match_here_no_key) simp
  have "\<forall>i<length pre. take 8 (drop i (pre @ s)) \<noteq> ''youtube:''"
  proof (intro allI impI)
    fix i assume "i < length pre"
    then have "take 8 (drop (Suc i) ((c # pre) @ s)) \<noteq> ''youtube:''"
      using Cons.prems by (metis Suc_less_eq length_Cons)
    then show "take 8 (drop i (pre @ s)) \<noteq> ''youtube:''" by simp
  qed
  then show ?case using Cons.IH here by simp
qed

lemma regex_match_no_key:
  "\<forall>i. take 8 (drop i s) \<noteq> ''youtube:'' \<Longrightarrow> regex_match s = None"
proof (induction s)
  case Nil
  then show ?case by simp
next
  case (Cons c s)
  have "take 8 (drop 0 (c # s)) \<noteq> ''youtube:''"
    using Cons.prems by blast
  then have here: "match_here (c # s) = None"
    by (intro match_here_no_key) simp
  have "\<forall>i. take 8 (drop i s) \<noteq> ''youtube:''"
  proof
    fix i
    have "take 8 (drop (Suc i) (c # s)) \<noteq> ''youtube:''"
      using Cons.prems by blast
    then show "take 8 (drop i s) \<noteq> ''youtube:''" by simp
  qed
  then show ?case using Cons.IH here by simp
qed

lemma no_y_no_key: "CHR ''y'' \<notin> set s \<Longrightarrow> take 8 (drop i s) \<noteq> ''youtube:''"
proof
  assume n: "CHR ''y'' \<notin> set s" and e: "take 8 (drop i s) = ''youtube:''"
  have "set (take 8 (drop i s)) \<subseteq> set s"
    by (meson set_drop_subset set_take_subset subset_trans)
  with e n show False by auto
qed

lemma prefix_no_y_no_key:
  assumes "CHR ''y'' \<notin> set pre"
  shows "\<forall>i<length pre. take 8 (drop i (pre @ s)) \<noteq> ''youtube:''"
proof (intro allI impI)
  fix i assume i: "i < length pre"
  then have "drop i (pre @ s) = pre ! i # (drop (Suc i) pre @ s)"
    by (simp add: Cons_nth_drop_Suc)
  moreover have "pre ! i \<noteq> CHR ''y''"
    using assms i by (metis nth_mem)
  ultimately show "take 8 (drop i (pre @ s)) \<noteq> ''youtube:''"
    by simp
qed

section \<open>Facts about \<^verbatim>\<open>formatTime\<close>\<close>

lemma pow2_neg_numeral: "pow2 (- numeral n) = 1 / 2 ^ numeral n"
  by (simp add: pow2_def power_int_minus_divide)

lemma pow2_small: "pow2 (- 1) = 1 / 2" "pow2 0 = 1" "pow2 1 = 2"
  by (simp_all add: pow2_def)

lemmas eval_pow2 = pow2_numeral pow2_neg_numeral pow2_small

lemmas eval_pad = padStart_def numeral_2_eq_2 numeral_3_eq_3

lemma round_half_even_eq:
  assumes "of_int n - 1 / 2 < x" "x < of_int n + 1 / 2"
  shows "round_half_even x = n"
proof (cases "of_int n \<le> x")
  case True
  then have "\<lfloor>x\<rfloor> = n" using assms(2) by (intro floor_unique) auto
  then show ?thesis using assms(2) by (simp add: round_half_even_def)
next
  case False
  then have "\<lfloor>x\<rfloor> = n - 1" using assms(1) by (intro floor_unique) auto
  then show ?thesis using assms(1) by (simp add: round_half_even_def)
qed

lemma nearest_at:
  assumes "pow2 e \<le> a" "a < pow2 (e + 1)" "- 1022 \<le> e"
    and "of_int m - 1 / 2 < a / pow2 (e - 52)" "a / pow2 (e - 52) < of_int m + 1 / 2"
  shows "nearest a = of_int m * pow2 (e - 52)"
  by (simp add: nearest_eval [OF assms(1-3)] round_half_even_eq [OF assms(4,5)])

text \<open>A bound that is itself a binary64 value survives rounding.\<close>

lemma nearest_le:
  assumes "0 \<le> a" "a \<le> of_int m * pow2 k" "0 < m" "m < 2 ^ 53" "- 1074 \<le> k"
  shows "nearest a \<le> of_int m * pow2 k"
  using nearest_mono0 [OF assms(1,2)] nearest_exact [OF assms(3-5)] by simp

lemma to_double_bounded:
  assumes "0 \<le> a" "a \<le> of_int m * pow2 k" "0 < m" "m < 2 ^ 53" "- 1074 \<le> k" "k \<le> 970"
  shows "to_double a = Fin (nearest a)"
proof -
  have "nearest a \<le> of_int m * pow2 k" by (rule nearest_le [OF assms(1-5)])
  also have "\<dots> < pow2 53 * pow2 k"
    using assms(4) by (intro mult_strict_right_mono) (simp_all add: pow2_numeral)
  also have "\<dots> = pow2 (53 + k)" by (simp add: pow2_add)
  also have "\<dots> < pow2 1024" using assms(6) by simp
  finally show ?thesis by (rule to_double_nonneg [OF assms(1)])
qed

lemma floor_to_double:
  assumes "of_int n \<le> a" "a \<le> of_int m * pow2 k" "of_int m * pow2 k < of_int n + 1"
    and "0 \<le> n" "n < 2 ^ 53" "0 < m" "m < 2 ^ 53" "- 1074 \<le> k" "k \<le> 970"
  shows "js_floor (to_double a) = Fin (of_int n)"
proof -
  have a0: "0 \<le> a" using assms(1,4) by (meson of_int_0_le_iff order_trans)
  have td: "to_double a = Fin (nearest a)"
    by (rule to_double_bounded [OF a0 assms(2) assms(6-9)])
  have "nearest (of_nat (nat n)) = (of_nat (nat n) :: rat)"
    using assms(4,5) by (intro nearest_of_nat) (simp add: nat_less_iff)
  then have "nearest (of_int n) = (of_int n :: rat)"
    using assms(4) by simp
  moreover have "nearest (of_int n) \<le> nearest a"
    using assms(1,4) by (intro nearest_mono0) simp_all
  ultimately have lo: "of_int n \<le> nearest a" by simp
  have "nearest a \<le> of_int m * pow2 k"
    by (rule nearest_le [OF a0 assms(2) assms(6-8)])
  then have hi: "nearest a < of_int n + 1" using assms(3) by linarith
  have "\<lfloor>nearest a\<rfloor> = n"
    using lo hi by (intro floor_unique) auto
  then show ?thesis by (simp add: td)
qed

lemma js_rem_at:
  assumes "0 \<le> q" "0 < d" "of_int n * d \<le> q" "q < (of_int n + 1) * d"
  shows "js_rem (Fin q) d = Fin (q - d * of_int n)"
proof -
  have "\<lfloor>q / d\<rfloor> = n"
    using assms by (intro floor_unique) (simp_all add: field_simps)
  moreover have "0 \<le> q / d" using assms(1,2) by simp
  ultimately show ?thesis by (simp add: trunc_rat_def)
qed

lemma to_double_numeral:
  "(numeral n :: nat) < 2 ^ 53 \<Longrightarrow> to_double (numeral n) = Fin (numeral n)"
  using to_double_of_nat [of "numeral n"] by simp

lemma js_floor_at:
  "of_int n \<le> q \<Longrightarrow> q < of_int n + 1 \<Longrightarrow> js_floor (Fin q) = Fin (of_int n)"
  by (simp add: floor_unique)

lemma number_toString_field:
  assumes "n < 2 ^ 53"
  shows "number_toString (Fin (of_int (int n))) = dec_of_nat n"
  using number_toString_of_nat [OF assms] by (simp del: number_toString.simps)

lemma formatTime_zero: "formatTime (to_double 0) = ''00:00:00.000''"
  by (simp add: formatTime_def to_double_def trunc_rat_def eval_pad)

lemma formatTime_3661_5: "formatTime (to_double (7323 / 2)) = ''01:01:01.500''"
proof -
  have t: "to_double (7323 / 2) = Fin (7323 / 2)"
    using nearest_exact [of 7323 "- 1"] to_double_bounded [of "7323 / 2" 7323 "- 1"]
    by (simp add: eval_pow2)
  have h: "js_floor (js_div (Fin (7323 / 2)) 3600) = Fin (of_int 1)"
    using floor_to_double [of 1 "(7323 / 2) / 3600" 3 "- 1"] by (simp add: eval_pow2)
  have r: "js_rem (Fin (7323 / 2)) 3600 = Fin (123 / 2)"
    using js_rem_at [of "7323 / 2" 3600 1] by simp
  have m: "js_floor (js_div (Fin (123 / 2)) 60) = Fin (of_int 1)"
    using floor_to_double [of 1 "(123 / 2) / 60" 3 "- 1"] by (simp add: eval_pow2)
  have "js_rem (Fin (7323 / 2)) 60 = Fin (3 / 2)"
    using js_rem_at [of "7323 / 2" 60 61] by simp
  then have s: "js_floor (js_rem (Fin (7323 / 2)) 60) = Fin (of_int 1)"
    using js_floor_at [of 1 "3 / 2"] by simp
  have w: "js_mul (Fin (7323 / 2)) 1000 = Fin 3661500"
    by (simp add: to_double_numeral)
  have "js_rem (Fin 3661500) 1000 = Fin 500"
    using js_rem_at [of 3661500 1000 3661] by simp
  then have ms: "js_floor (js_rem (Fin 3661500) 1000) = Fin (of_int 500)"
    using js_floor_at [of 500 500] by simp
  have d1: "number_toString (Fin (of_int 1)) = ''1''"
    using number_toString_field [of 1] by (simp add: dec_of_nat.simps eval_chars del: number_toString.simps)
  have d500: "number_toString (Fin (of_int 500)) = ''500''"
    using number_toString_field [of 500] by (simp add: dec_of_nat.simps eval_chars del: number_toString.simps)
  show ?thesis
    unfolding t formatTime_def h r m s w ms d1 d500 Let_def
    by (simp add: eval_pad)
qed

lemma nearest_86399_999: "nearest (86399999 / 1000) = 5937362721270923 / 68719476736"
  using nearest_at [of 16 "86399999 / 1000" 5937362721270923]
  by (simp add: eval_pow2)

lemma to_double_86399_999: "to_double (86399999 / 1000) = Fin (5937362721270923 / 68719476736)"
  using to_double_bounded [of "86399999 / 1000" 86400 0]
  by (simp add: eval_pow2 nearest_86399_999)

lemma formatTime_86399_999: "formatTime (to_double (86399999 / 1000)) = ''23:59:59.999''"
proof -
  define t :: rat where "t = 5937362721270923 / 68719476736"
  have t: "to_double (86399999 / 1000) = Fin t"
    by (simp add: to_double_86399_999 t_def)
  have h: "js_floor (js_div (Fin t) 3600) = Fin (of_int 23)"
    using floor_to_double [of 23 "t / 3600" "24 * 2 ^ 30 - 1" "- 30"]
    by (simp add: eval_pow2 t_def)
  have r: "js_rem (Fin t) 3600 = Fin (t - 82800)"
    using js_rem_at [of t 3600 23] by (simp add: t_def)
  have m: "js_floor (js_div (Fin (t - 82800)) 60) = Fin (of_int 59)"
    using floor_to_double [of 59 "(t - 82800) / 60" "60 * 2 ^ 20 - 1" "- 20"]
    by (simp add: eval_pow2 t_def)
  have "js_rem (Fin t) 60 = Fin (t - 86340)"
    using js_rem_at [of t 60 1439] by (simp add: t_def)
  then have s: "js_floor (js_rem (Fin t) 60) = Fin (of_int 59)"
    using js_floor_at [of 59 "t - 86340"] by (simp add: t_def)
  have "nearest (t * 1000) = 86399999"
    using nearest_at [of 26 "t * 1000" "86399999 * 2 ^ 26"]
    by (simp add: eval_pow2 t_def)
  then have w: "js_mul (Fin t) 1000 = Fin 86399999"
    using to_double_bounded [of "t * 1000" 86400000 0]
    by (simp add: eval_pow2 t_def)
  have "js_rem (Fin 86399999) 1000 = Fin 999"
    using js_rem_at [of 86399999 1000 86399] by simp
  then have ms: "js_floor (js_rem (Fin 86399999) 1000) = Fin (of_int 999)"
    using js_floor_at [of 999 999] by simp
  have d: "number_toString (Fin (of_int 23)) = ''23''" "number_toString (Fin (of_int 59)) = ''59''"
    "number_toString (Fin (of_int 999)) = ''999''"
    using number_toString_field [of 23] number_toString_field [of 59] number_toString_field [of 999]
    by (simp_all add: dec_of_nat.simps eval_chars del: number_toString.simps)
  show ?thesis
    unfolding t formatTime_def h r m s w ms d Let_def
    by (simp add: eval_pad)
qed

lemma js_rem_range:
  assumes "0 \<le> q" "0 < d"
  shows "\<exists>r k. js_rem (Fin q) d = Fin r \<and> 0 \<le> r \<and> r < d \<and> r = q - d * of_int k \<and> 0 \<le> k"
proof -
  define k where "k = \<lfloor>q / d\<rfloor>"
  have q0: "0 \<le> q / d" using assms by simp
  then have k0: "0 \<le> k" by (simp add: k_def)
  have "of_int k \<le> q / d" "q / d < of_int k + 1"
    using floor_correct [of "q / d"] by (simp_all add: k_def)
  then have "of_int k * d \<le> q" "q < (of_int k + 1) * d"
    using assms(2) by (simp_all add: field_simps)
  then have "0 \<le> q - d * of_int k" "q - d * of_int k < d"
    by (simp_all add: algebra_simps)
  moreover have "js_rem (Fin q) d = Fin (q - d * of_int k)"
    using q0 by (simp add: trunc_rat_def k_def)
  ultimately show ?thesis using k0 by blast
qed

lemma field_string:
  assumes "0 \<le> q" "q < of_nat b" "b \<le> 2 ^ 53"
  shows "\<exists>n<b. number_toString (js_floor (Fin q)) = dec_of_nat n"
proof -
  define n where "n = nat \<lfloor>q\<rfloor>"
  have f: "0 \<le> \<lfloor>q\<rfloor>" using assms(1) by simp
  have "\<lfloor>q\<rfloor> < int b" using assms(2) by (simp add: floor_less_iff)
  then have nb: "n < b" using f by (simp add: n_def nat_less_iff)
  then have "n < 2 ^ 53" using assms(3) by linarith
  from number_toString_field [OF this]
  have "number_toString (js_floor (Fin q)) = dec_of_nat n"
    using f by (simp add: n_def del: number_toString.simps)
  with nb show ?thesis by blast
qed

lemma length_dec_of_nat: "n < 10 ^ k \<Longrightarrow> 0 < k \<Longrightarrow> length (dec_of_nat n) \<le> k"
proof (induction n arbitrary: k rule: dec_of_nat.induct)
  case (1 n)
  show ?case
  proof (cases "n < 10")
    case True
    then show ?thesis using 1(3) by (subst dec_of_nat.simps) simp
  next
    case False
    obtain j where k: "k = Suc j" using 1(3) by (cases k) auto
    have "j \<noteq> 0" using False 1(2) k by (cases j) auto
    moreover have "n div 10 < 10 ^ j" using 1(2) k by (simp add: less_mult_imp_div_less mult.commute)
    ultimately have "length (dec_of_nat (n div 10)) \<le> j"
      using 1(1) [OF False, of j] by simp
    then show ?thesis using False k by (subst dec_of_nat.simps) simp
  qed
qed

text \<open>A remainder of a binary64 value at least 2048 stays on its grid.\<close>

lemma rem_3600_below:
  assumes "0 \<le> t0" "t = nearest t0" "u = t - 3600 * of_int k" "0 \<le> k" "0 \<le> u" "u < 3600"
  shows "u \<le> 3600 - pow2 (- 41)"
proof (cases "t0 < pow2 11")
  case True
  then have "t0 \<le> of_int 1 * pow2 11" by simp
  from nearest_le [OF assms(1) this] have "t \<le> 2048"
    by (simp add: assms(2) eval_pow2)
  moreover have "0 \<le> 3600 * (of_int k :: rat)" using assms(4) by simp
  ultimately have "u \<le> 2048"
    using assms(3) by linarith
  then show ?thesis by (simp add: eval_pow2)
next
  case False
  then have "pow2 11 \<le> t0" by simp
  from nearest_grid [OF this] obtain M where M: "t = of_int M * pow2 (- 41)"
    using assms(2) by auto
  define p where "p = pow2 (- 41)"
  define C :: int where "C = 3600 * 2 ^ 41"
  have p: "0 < p" by (simp add: p_def)
  have c: "(3600 :: rat) = of_int C * p"
    by (simp add: eval_pow2 p_def C_def)
  have "u = of_int M * p - (of_int C * p) * of_int k"
    using assms(3) M c by (simp only: p_def)
  also have "\<dots> = of_int (M - C * k) * p"
    by (simp add: algebra_simps)
  finally have u: "u = of_int (M - C * k) * p" .
  have "of_int (M - C * k) * p < of_int C * p"
    using assms(6) u c by simp
  then have "(of_int (M - C * k) :: rat) < of_int C"
    using p by (simp only: mult_less_cancel_right_pos)
  then have "M - C * k < C"
    using of_int_less_iff by blast
  then have "M - C * k \<le> C - 1" by simp
  then have "(of_int (M - C * k) :: rat) \<le> of_int (C - 1)"
    using of_int_le_iff by blast
  then have "of_int (M - C * k) * p \<le> of_int (C - 1) * p"
    using p by (simp only: mult_le_cancel_right_pos)
  also have "\<dots> = of_int C * p - p"
    by (simp add: algebra_simps)
  finally show ?thesis
    using u c by (simp add: p_def)
qed

lemma pad_length:
  assumes "n < 10 ^ k" "0 < k"
  shows "length (padStart k CHR ''0'' (dec_of_nat n)) = k"
  using length_dec_of_nat [OF assms] by (simp add: padStart_def)

lemma to_double_neg:
  assumes "0 < a" "nearest a < pow2 1024"
  shows "to_double (- a) = Fin (- nearest a)"
  using assms by (simp add: to_double_def)

lemma js_floor_small_neg:
  assumes "pow2 e \<le> a" "a < pow2 (e + 1)" "- 1022 \<le> e" "e < - 1"
  shows "js_floor (to_double (- a)) = Fin (of_int (- 1))"
proof -
  have a: "0 < a" using assms(1) pow2_pos [of e] by linarith
  have b: "pow2 e \<le> nearest a" "nearest a \<le> pow2 (e + 1)"
    using nearest_binade [OF assms(1-3)] by auto
  have "pow2 (e + 1) < pow2 0" using assms(4) by (simp only: pow2_less_iff)
  then have lt1: "nearest a < 1" using b(2) by (simp add: pow2_small)
  then have "nearest a < pow2 1024"
    using pow2_less_iff [of 0 1024] by (simp add: pow2_small)
  then have td: "to_double (- a) = Fin (- nearest a)"
    by (rule to_double_neg [OF a])
  have "0 < nearest a" using b(1) pow2_pos [of e] by linarith
  then have "\<lfloor>- nearest a\<rfloor> = - 1"
    using lt1 by (intro floor_unique) simp_all
  then show ?thesis by (simp add: td)
qed

lemma trunc_rat_small_neg: "- 1 < q \<Longrightarrow> q \<le> 0 \<Longrightarrow> trunc_rat q = 0"
  by (auto simp: trunc_rat_def intro!: ceiling_unique)

lemma formatTime_minus_1: "formatTime (Fin (- 1)) = ''-1:-1:-1.000''"
proof -
  have h: "js_floor (js_div (Fin (- 1)) 3600) = Fin (of_int (- 1))"
    using js_floor_small_neg [of "- 12" "1 / 3600"] by (simp add: eval_pow2)
  have r: "js_rem (Fin (- 1)) 3600 = Fin (- 1)"
    using trunc_rat_small_neg [of "- 1 / 3600"] by simp
  have m: "js_floor (js_div (Fin (- 1)) 60) = Fin (of_int (- 1))"
    using js_floor_small_neg [of "- 6" "1 / 60"] by (simp add: eval_pow2)
  have "js_rem (Fin (- 1)) 60 = Fin (- 1)"
    using trunc_rat_small_neg [of "- 1 / 60"] by simp
  then have s: "js_floor (js_rem (Fin (- 1)) 60) = Fin (of_int (- 1))"
    by simp
  have "to_double (- 1000) = Fin (- nearest 1000)"
    using to_double_neg [of 1000] nearest_of_nat [of 1000] pow2_less_iff [of 10 1024]
    by (simp add: eval_pow2)
  then have w: "js_mul (Fin (- 1)) 1000 = Fin (- 1000)"
    using nearest_of_nat [of 1000] by simp
  have "trunc_rat (- 1) = - 1"
    by (auto simp: trunc_rat_def intro!: ceiling_unique)
  then have ms: "js_floor (js_rem (Fin (- 1000)) 1000) = Fin (of_int 0)"
    by simp
  have d: "number_toString (Fin (of_int (- 1))) = ''-1''" "number_toString (Fin (of_int 0)) = ''0''"
    using number_toString_of_int [of "- 1"] number_toString_of_int [of 0]
    by (simp_all add: dec_of_int_def dec_of_nat.simps eval_chars del: number_toString.simps)
  show ?thesis
    unfolding formatTime_def h r m s w ms d Let_def
    by (simp add: eval_pad)
qed

section \<open>Facts about \<^verbatim>\<open>Number::toString\<close> beyond the exact integers\<close>

lemma pow10_pos [simp]: "0 < pow10 e"
  by (simp add: pow10_def power_int_def)

lemma pow10_diff: "pow10 (a - b) = pow10 a / pow10 b"
  by (simp add: pow10_def power_int_diff)

lemma pow10_less_iff [simp]: "pow10 a < pow10 b \<longleftrightarrow> a < b"
proof -
  have "\<And>a b. a < b \<Longrightarrow> pow10 a < pow10 b"
    unfolding pow10_def by (intro power_int_strict_increasing) simp_all
  then show ?thesis
    by (metis less_irrefl linorder_neqE_linordered_idom order_less_trans)
qed

lemma pow10_numeral: "pow10 (numeral n) = 10 ^ numeral n"
  by (simp add: pow10_def)

lemma pow10_neg_numeral: "pow10 (- numeral n) = 1 / 10 ^ numeral n"
  by (simp add: pow10_def power_int_minus_divide)

lemma pow10_small: "pow10 0 = 1" "pow10 1 = 10" "pow10 (- 1) = 1 / 10"
  by (simp_all add: pow10_def)

lemmas eval_pow10 = pow10_numeral pow10_neg_numeral pow10_small

lemma floorlog10_rat_bounds:
  assumes "0 < a"
  shows "pow10 (int (floorlog 10 (nat a)) - 1) \<le> of_int a"
    and "of_int a < pow10 (int (floorlog 10 (nat a)))"
proof -
  have pos: "0 < nat a" using assms by simp
  have b: "10 ^ (floorlog 10 (nat a) - 1) \<le> nat a" "nat a < 10 ^ floorlog 10 (nat a)"
    using floorlog_bounds [OF pos, of 10] by auto
  obtain j where j: "floorlog 10 (nat a) = Suc j"
  proof (cases "floorlog 10 (nat a)")
    case 0
    with b(2) pos show ?thesis by simp
  next
    case (Suc j)
    then show ?thesis by (rule that)
  qed
  have lo: "10 ^ j \<le> nat a" and hi: "nat a < 10 ^ Suc j"
    using b by (simp_all only: j diff_Suc_1)
  have "int (10 ^ j) \<le> a"
    using lo assms by (simp only: le_nat_iff [OF less_imp_le])
  then have "(of_int (int (10 ^ j)) :: rat) \<le> of_int a"
    by (simp only: of_int_le_iff)
  moreover have "pow10 (int (Suc j) - 1) = of_int (int (10 ^ j))"
    by (simp add: pow10_def)
  ultimately show "pow10 (int (floorlog 10 (nat a)) - 1) \<le> of_int a"
    by (simp only: j)
  have "a < int (10 ^ Suc j)"
    using hi assms by (simp only: nat_less_iff [OF less_imp_le])
  then have "(of_int a :: rat) < of_int (int (10 ^ Suc j))"
    by (simp only: of_int_less_iff)
  moreover have "pow10 (int (Suc j)) = of_int (int (10 ^ Suc j))"
    unfolding pow10_def power_int_of_nat by simp
  ultimately show "of_int a < pow10 (int (floorlog 10 (nat a)))"
    by (simp only: j)
qed

lemma decimal_exponent_bounds:
  assumes "0 < q"
  shows "pow10 (decimal_exponent q - 1) \<le> q" and "q < pow10 (decimal_exponent q)"
proof -
  obtain a b where ab: "quotient_of q = (a, b)" by (cases "quotient_of q")
  then have bpos: "0 < b" and q: "q = of_int a / of_int b"
    using quotient_of_denom_pos quotient_of_div by auto
  have apos: "0 < a"
    using assms bpos q by (simp add: zero_less_divide_iff)
  define la where "la = int (floorlog 10 (nat a))"
  define lb where "lb = int (floorlog 10 (nat b))"
  note A = floorlog10_rat_bounds [OF apos, folded la_def]
  note B = floorlog10_rat_bounds [OF bpos, folded lb_def]
  have up: "q < pow10 (la - lb + 1)"
  proof -
    have "q < pow10 la / of_int b"
      unfolding q using A(2) bpos by (simp add: divide_strict_right_mono)
    also have "\<dots> \<le> pow10 la / pow10 (lb - 1)"
      using B(1) by (intro frac_le) (auto simp: less_imp_le)
    also have "\<dots> = pow10 (la - lb + 1)"
      by (simp add: pow10_diff [symmetric] algebra_simps)
    finally show ?thesis .
  qed
  have lo: "pow10 (la - lb - 1) \<le> q"
  proof -
    have "pow10 (la - lb - 1) = pow10 (la - 1) / pow10 lb"
      by (simp add: pow10_diff [symmetric] algebra_simps)
    also have "\<dots> \<le> of_int a / of_int b"
      using A(1) B(2) bpos apos by (intro frac_le) (auto simp: less_imp_le)
    finally show ?thesis by (simp add: q)
  qed
  have d: "decimal_exponent q = (if q < pow10 (la - lb) then la - lb else la - lb + 1)"
    by (simp add: decimal_exponent_def ab la_def lb_def Let_def)
  show "pow10 (decimal_exponent q - 1) \<le> q"
    using lo by (simp add: d)
  show "q < pow10 (decimal_exponent q)"
    using up by (simp add: d)
qed

lemma decimal_exponent_eq:
  assumes "pow10 (n - 1) \<le> q" "q < pow10 n"
  shows "decimal_exponent q = n"
proof -
  have "0 < q" using assms(1) pow10_pos [of "n - 1"] by linarith
  from decimal_exponent_bounds [OF this] assms
  have "pow10 (decimal_exponent q - 1) < pow10 n" "pow10 (n - 1) < pow10 (decimal_exponent q)"
    by linarith+
  then show ?thesis by simp
qed

lemma decimal_exponent_1e21: "decimal_exponent (10 ^ 21) = 22"
proof (rule decimal_exponent_eq)
  have "pow10 (22 - 1) = pow10 21" by simp
  then show "pow10 (22 - 1) \<le> 10 ^ 21" by (simp only: pow10_numeral)
  have "(10 :: rat) ^ 21 < 10 ^ 22" by (rule power_strict_increasing) simp_all
  then show "10 ^ 21 < pow10 22" by (simp only: pow10_numeral)
qed

lemma to_double_exact:
  assumes "0 < m" "m < 2 ^ 53" "- 1074 \<le> k" "k \<le> 970"
  shows "to_double (of_int m * pow2 k) = Fin (of_int m * pow2 k)"
proof -
  have "0 \<le> (of_int m :: rat) * pow2 k"
    using assms(1) pow2_pos [of k] by (intro mult_nonneg_nonneg) (simp_all add: less_imp_le)
  from to_double_bounded [OF this _ assms] show ?thesis
    by (simp add: nearest_exact [OF assms(1-3)])
qed

lemma to_double_1e21: "to_double (10 ^ 21) = Fin (10 ^ 21)"
  using to_double_exact [of "5 ^ 21" 21] by (simp add: eval_pow2)

lemma to_double_1e22: "to_double (10 ^ 22) = Fin (10 ^ 22)"
  using to_double_exact [of "5 ^ 22" 22] by (simp add: eval_pow2)

lemma digit_candidates_1e21: "digit_candidates (10 ^ 21) 1 = [(22, 1), (22, 1)]"
proof -
  have f: "\<lfloor>1 / 10 :: rat\<rfloor> = 0" by (intro floor_unique) simp_all
  have c: "\<lceil>1 / 10 :: rat\<rceil> = 1" by (intro ceiling_unique) simp_all
  have p: "pow10 21 = 10 ^ 21" "pow10 22 = 10 ^ 22"
    by (simp_all only: pow10_numeral)
  show ?thesis
    unfolding digit_candidates_def decimal_exponent_1e21
    by (simp add: p f c to_double_1e21 [simplified] to_double_1e22 [simplified])
qed

lemma number_toString_1e21: "number_toString (Fin (10 ^ 21)) = ''1e+21''"
proof -
  have "shortest_digits (10 ^ 21) 1 (Suc 16) = (22, 1, 1)"
    by (subst shortest_digits.simps(2)) (simp add: digit_candidates_1e21 [simplified] nearer_def)
  moreover have "(17 :: nat) = Suc 16" by simp
  ultimately have s: "shortest_digits (10 ^ 21) 1 17 = (22, 1, 1)"
    by (simp only:)
  have d: "dec_of_nat 1 = ''1''" "dec_of_nat 21 = ''21''"
    by (simp_all add: dec_of_nat.simps eval_chars)
  have fd: "format_digits (22, 1, 1) = ''1e+21''"
    by (simp add: format_digits_def d d [simplified])
  have "pos_toString (10 ^ 21) = ''1e+21''"
    unfolding pos_toString_def s fd by simp
  then show ?thesis
    unfolding number_toString.simps by simp
qed

lemma hex_char_range: "d < 16 \<Longrightarrow> hex_char d \<in> set ''0123456789abcdef''"
proof -
  assume "d < 16"
  then have "d = 0 \<or> d = 1 \<or> d = 2 \<or> d = 3 \<or> d = 4 \<or> d = 5 \<or> d = 6 \<or> d = 7
      \<or> d = 8 \<or> d = 9 \<or> d = 10 \<or> d = 11 \<or> d = 12 \<or> d = 13 \<or> d = 14 \<or> d = 15"
    by arith
  then show ?thesis
    by (elim disjE) (simp_all add: hex_char_def eval_chars)
qed

lemma digest_hex_chars: "set (digest_hex w) \<subseteq> set ''0123456789abcdef''"
proof
  fix c assume "c \<in> set (digest_hex w)"
  then obtain i where "c = hex_char (unat w div 16 ^ i mod 16)"
    by (auto simp: digest_hex_def)
  then show "c \<in> set ''0123456789abcdef''"
    using hex_char_range [of "unat w div 16 ^ i mod 16"] by simp
qed

section \<open>A token that passes the check without the secret\<close>

text \<open>
  The handler takes the third part of the freshly minted token for its signature. When the
  printed id has an exponent sign, that part is the exponent: \<^verbatim>\<open>Number("0.0000001")\<close>
  prints as \<^verbatim>\<open>1e-7\<close>, the minted token is \<^verbatim>\<open>flag-1e-7-<sig>\<close>, and its third part is
  \<^verbatim>\<open>7\<close>. So \<^verbatim>\<open>flag-0.0000001-7\<close> passes, for every secret and every hash.
\<close>

lemma nearest_1em7: "nearest (1 / 10 ^ 7) = double_1em7"
  using nearest_at [of "- 24" "1 / 10 ^ 7" 7555786372591432]
  by (simp add: eval_pow2 double_1em7_def)

lemma to_double_1em7: "to_double (1 / 10 ^ 7) = Fin double_1em7"
  using to_double_bounded [of "1 / 10 ^ 7" 1 0]
  by (simp add: eval_pow2 nearest_1em7 [simplified])

lemma js_Number_1em7: "js_Number (Some ''0.0000001'') = Fin double_1em7"
proof -
  have "unsigned_decimal ''0.0000001'' = Some (1 / 10 ^ 7)"
    by (simp add: unsigned_decimal_def is_digit_def radix_digit_def digits_value_def
        exponent_part_def Let_def eval_pow10)
  then show ?thesis
    using to_double_1em7
    by (simp add: trim_def is_white_def non_decimal_def str_decimal_def unsigned_literal_def
        Let_def)
qed

lemma decimal_exponent_1em7: "decimal_exponent double_1em7 = - 7"
  by (rule decimal_exponent_eq) (simp_all add: eval_pow10 double_1em7_def)

lemma to_double_9em8: "to_double (9 / 10 ^ 8) \<noteq> Fin double_1em7"
proof -
  have b: "(9 :: rat) / 10 ^ 8 \<le> of_int 13 * pow2 (- 27)"
    by (simp add: eval_pow2)
  have "nearest (9 / 10 ^ 8) \<le> of_int 13 * pow2 (- 27)"
    by (rule nearest_le [OF _ b]) simp_all
  also have "\<dots> < double_1em7" by (simp add: eval_pow2 double_1em7_def)
  finally have "nearest (9 / 10 ^ 8) \<noteq> double_1em7" by simp
  moreover have "to_double (9 / 10 ^ 8) = Fin (nearest (9 / 10 ^ 8))"
    by (rule to_double_bounded [OF _ b]) simp_all
  ultimately show ?thesis by simp
qed

lemma digit_candidates_1em7: "digit_candidates double_1em7 1 = [(- 6, 1)]"
proof -
  have f8: "\<lfloor>double_1em7 / pow10 (- 8)\<rfloor> = 9" by (intro floor_unique) (simp_all add: eval_pow10 double_1em7_def)
  have c8: "\<lceil>double_1em7 / pow10 (- 8)\<rceil> = 10" by (intro ceiling_unique) (simp_all add: eval_pow10 double_1em7_def)
  have f7: "\<lfloor>double_1em7 / pow10 (- 7)\<rfloor> = 0" by (intro floor_unique) (simp_all add: eval_pow10 double_1em7_def)
  have c7: "\<lceil>double_1em7 / pow10 (- 7)\<rceil> = 1" by (intro ceiling_unique) (simp_all add: eval_pow10 double_1em7_def)
  have v: "to_double (9 * pow10 (- 8)) \<noteq> Fin double_1em7" "to_double (pow10 (- 7)) = Fin double_1em7"
    using to_double_9em8 to_double_1em7 by (simp_all add: eval_pow10)
  show ?thesis
    unfolding digit_candidates_def decimal_exponent_1em7
    by (simp add: f8 c8 f7 c7 v)
qed

lemma number_toString_1em7: "number_toString (Fin double_1em7) = ''1e-7''"
proof -
  have "shortest_digits double_1em7 1 (Suc 16) = (- 6, 1, 1)"
    by (subst shortest_digits.simps(2)) (simp add: digit_candidates_1em7 [simplified])
  moreover have "(17 :: nat) = Suc 16" by simp
  ultimately have s: "shortest_digits double_1em7 1 17 = (- 6, 1, 1)"
    by (simp only:)
  have d: "dec_of_nat 1 = ''1''" "dec_of_nat 7 = ''7''"
    by (simp_all add: dec_of_nat.simps eval_chars)
  have fd: "format_digits (- 6, 1, 1) = ''1e-7''"
    by (simp add: format_digits_def d d [simplified])
  have f: "\<lfloor>double_1em7\<rfloor> = 0" by (intro floor_unique) (simp_all add: double_1em7_def)
  have pos: "0 < double_1em7" by (simp add: double_1em7_def)
  have "pos_toString double_1em7 = ''1e-7''"
    unfolding pos_toString_def s fd f using pos by simp
  then show ?thesis
    unfolding number_toString.simps using pos by simp
qed

lemma exponent_id_passes_check:
  assumes "env ''FLAG_SECRET'' = Some secret" "secret \<noteq> []"
  shows "checkFlagId env h ''flag-0.0000001-7'' = Inr (Fin double_1em7)"
proof -
  define hex where "hex = digest_hex (h secret ''1e-7'')"
  define minted where "minted = ''flag-1e-7-'' @ hex"
  have parts: "js_split ''flag-0.0000001-7'' = [''flag'', ''0.0000001'', ''7'']"
    by simp
  have "js_split hex = [hex]"
    unfolding hex_def by (rule js_split_no_hyphen [OF digest_hex_no_hyphen])
  then have m: "js_split minted = [''flag'', ''1e'', ''7'', hex]"
    by (simp add: minted_def)
  have c: "createFlagId env h (Some (Fin double_1em7)) = Inr minted"
    unfolding createFlagId_Some [where env = env and secret = secret, OF assms]
      js_String.simps number_toString_1em7 minted_def hex_def by simp
  show ?thesis
    unfolding checkFlagId_def parts Let_def at_index_simps js_Number_1em7
    by (simp add: c m at_index_simps del: js_Number.simps js_split.simps)
qed

section \<open>The claims\<close>

text \<open>
  C1, amended. For every integer \<open>id\<close> with \<open>0 \<le> id < 2 ^ 53\<close> and a secret that is set,
  the token minted for \<open>id\<close> passes the check of the DELETE handler, which recovers
  \<open>id\<close> and asks the store to delete exactly that row of \<^verbatim>\<open>Flags\<close>.
\<close>

theorem verify_mint_roundtrip:
  assumes "env ''FLAG_SECRET'' = Some secret" "secret \<noteq> []"
    and "0 \<le> i" "i < 2 ^ 53"
  shows "\<exists>token. createFlagId env h (Some (Fin (of_int i))) = Inr token
           \<and> checkFlagId env h token = Inr (Fin (of_int i))
           \<and> delete_flag g env h \<lparr>event = e, slug = s, lang = l, flagId = token\<rparr> store
               = (case deleteRecords g ''Flags'' [Fin (of_int i)] store of
                    (Inl msg, store') \<Rightarrow> (Inl (GristError msg), store')
                  | (Inr u, store') \<Rightarrow> (Inr True, store'))"
proof -
  define n where "n = nat i"
  have n: "n < 2 ^ 53" "(of_int i :: rat) = of_nat n"
    using assms(3,4) by (simp_all add: n_def nat_less_iff)
  define token where "token = ''flag-'' @ dec_of_nat n @ ''-'' @ digest_hex (h secret (dec_of_nat n))"
  note acc = minted_token_accepted [where env = env and secret = secret and h = h,
      OF assms(1,2) n(1), folded token_def]
  have mint: "createFlagId env h (Some (Fin (of_int i))) = Inr token"
    using acc(1) by (simp only: n(2))
  have chk: "checkFlagId env h token = Inr (Fin (of_int i))"
    using acc(2) by (simp only: n(2))
  then have "delete_flag g env h \<lparr>event = e, slug = s, lang = l, flagId = token\<rparr> store
      = (case deleteRecords g ''Flags'' [Fin (of_int i)] store of
           (Inl msg, store') \<Rightarrow> (Inl (GristError msg), store')
         | (Inr u, store') \<Rightarrow> (Inr True, store'))"
    by (simp add: delete_flag_def)
  with mint chk show ?thesis by blast
qed

theorem verify_mint_roundtrip_witness:
  "example_env ''FLAG_SECRET'' = Some ''s3cret'' \<and> ''s3cret'' \<noteq> [] \<and> (0 :: int) \<le> 42
   \<and> (42 :: int) < 2 ^ 53
   \<and> (\<exists>token. createFlagId example_env example_hmac (Some (Fin (of_int 42))) = Inr token
         \<and> checkFlagId example_env example_hmac token = Inr (Fin (of_int 42))
         \<and> delete_flag logging_grist example_env example_hmac
              \<lparr>event = ''bkkjs'', slug = ''talk'', lang = ''en'', flagId = token\<rparr> []
             = (Inr True, [(''Flags'', [Fin (of_int 42)])]))"
  using verify_mint_roundtrip [of example_env "''s3cret''" 42 example_hmac logging_grist
      "''bkkjs''" "''talk''" "''en''" "[]"]
  by (simp add: example_secret logging_grist_def)

text \<open>
  The round trip fails for a negative \<open>id\<close>: the minus sign of \<^verbatim>\<open>-5\<close> is one more
  hyphen, so the parts of \<^verbatim>\<open>flag--5-<sig>\<close> are \<^verbatim>\<open>flag\<close>, the empty string, \<^verbatim>\<open>5\<close>
  and the signature; the handler compares \<^verbatim>\<open>5\<close> with the signature of \<^verbatim>\<open>Number("")\<close>,
  which is 0.
\<close>

theorem verify_mint_negative_counterexample:
  "createFlagId example_env example_hmac (Some (Fin (- 5)))
     = Inr (''flag--5-'' @ digest_hex (example_hmac ''s3cret'' ''-5''))
   \<and> checkFlagId example_env example_hmac
         (''flag--5-'' @ digest_hex (example_hmac ''s3cret'' ''-5''))
     = Inl InvalidFlagId"
proof -
  define hex where "hex = digest_hex (example_hmac ''s3cret'' ''-5'')"
  have "number_toString (Fin (of_int (- 5))) = ''-5''"
    by (subst number_toString_of_int) (simp_all add: dec_of_int_def dec_of_nat.simps eval_chars)
  then have str: "number_toString (Fin (- 5)) = ''-5''"
    by (simp del: number_toString.simps)
  define token where "token = ''flag--5-'' @ hex"
  have mint: "createFlagId example_env example_hmac (Some (Fin (- 5))) = Inr token"
    by (simp add: createFlagId_Some [where secret = "''s3cret''"] example_secret str hex_def
        token_def del: number_toString.simps)
  have "js_split hex = [hex]"
    unfolding hex_def by (rule js_split_no_hyphen [OF digest_hex_no_hyphen])
  then have parts: "js_split token = [''flag'', [], ''5'', hex]"
    by (simp add: token_def)
  have num: "js_Number (Some []) = Fin 0"
    by (simp add: trim_def)
  have str0: "number_toString (Fin 0) = ''0''"
    by simp
  have "length ''5'' \<noteq> length (digest_hex (example_hmac ''s3cret'' ''0''))"
    by (simp add: length_digest_hex)
  then have "''5'' \<noteq> digest_hex (example_hmac ''s3cret'' ''0'')"
    by metis
  then have "checkFlagId example_env example_hmac token = Inl InvalidFlagId"
    by (subst checkFlagId_no_hyphen [where secret = "''s3cret''"])
       (simp_all add: example_secret parts at_index_simps num str0
          del: js_Number.simps number_toString.simps js_split.simps)
  with mint show ?thesis by (simp add: hex_def token_def)
qed

text \<open>
  C2, amended. With the secret set, the DELETE handler rejects a token, and deletes
  nothing, whenever it has fewer than three hyphen-delimited parts, and whenever its third
  part differs from the signature freshly computed for \<^verbatim>\<open>Number\<close> of its second part,
  provided the printed form of that number has no hyphen. For a second part that is not
  numeric that number is \<open>NaN\<close>, and the signature is the one of the string \<^verbatim>\<open>NaN\<close>.
\<close>

theorem invalid_token_rejected:
  assumes "env ''FLAG_SECRET'' = Some secret" "secret \<noteq> []"
    and "length (js_split (flagId p)) < 3
         \<or> CHR ''-'' \<notin> set (number_toString (js_Number (at_index (js_split (flagId p)) 1)))
           \<and> at_index (js_split (flagId p)) 2
               \<noteq> Some (digest_hex (h secret
                      (number_toString (js_Number (at_index (js_split (flagId p)) 1)))))"
  shows "delete_flag g env h p store = (Inl InvalidFlagId, store)"
proof -
  have "checkFlagId env h (flagId p) = Inl InvalidFlagId"
    using assms(3)
  proof
    assume "length (js_split (flagId p)) < 3"
    then show ?thesis
      by (rule checkFlagId_short [where env = env and secret = secret, OF assms(1,2)])
  next
    assume a: "CHR ''-'' \<notin> set (number_toString (js_Number (at_index (js_split (flagId p)) 1)))
           \<and> at_index (js_split (flagId p)) 2
               \<noteq> Some (digest_hex (h secret
                      (number_toString (js_Number (at_index (js_split (flagId p)) 1)))))"
    then show ?thesis
      using checkFlagId_no_hyphen [where env = env and secret = secret and fid = "flagId p" and h = h,
          OF assms(1,2)]
      by simp
  qed
  then show ?thesis by (simp add: delete_flag_def)
qed

theorem invalid_token_rejected_witness:
  "example_env ''FLAG_SECRET'' = Some ''s3cret'' \<and> ''s3cret'' \<noteq> []
   \<and> length (js_split ''flag-42'') < 3
   \<and> delete_flag logging_grist example_env example_hmac
        \<lparr>event = ''bkkjs'', slug = ''talk'', lang = ''en'', flagId = ''flag-42''\<rparr> []
      = (Inl InvalidFlagId, [])
   \<and> CHR ''-'' \<notin> set (number_toString (js_Number (at_index (js_split ''flag-abc-deadbeef'') 1)))
   \<and> at_index (js_split ''flag-abc-deadbeef'') 2
        \<noteq> Some (digest_hex (example_hmac ''s3cret''
               (number_toString (js_Number (at_index (js_split ''flag-abc-deadbeef'') 1)))))
   \<and> delete_flag logging_grist example_env example_hmac
        \<lparr>event = ''bkkjs'', slug = ''talk'', lang = ''en'', flagId = ''flag-abc-deadbeef''\<rparr> []
      = (Inl InvalidFlagId, [])"
proof -
  have short: "length (js_split ''flag-42'') < 3"
    by simp
  have parts: "js_split ''flag-abc-deadbeef'' = [''flag'', ''abc'', ''deadbeef'']"
    by simp
  have nohyphen:
    "CHR ''-'' \<notin> set (number_toString (js_Number (at_index (js_split ''flag-abc-deadbeef'') 1)))"
    by (simp add: parts at_index_simps js_Number_abc del: js_Number.simps js_split.simps)
  have "length ''deadbeef'' \<noteq> length (digest_hex (example_hmac ''s3cret'' ''NaN''))"
    by (simp add: length_digest_hex)
  then have "''deadbeef'' \<noteq> digest_hex (example_hmac ''s3cret'' ''NaN'')"
    by metis
  then have wrong: "at_index (js_split ''flag-abc-deadbeef'') 2
        \<noteq> Some (digest_hex (example_hmac ''s3cret''
               (number_toString (js_Number (at_index (js_split ''flag-abc-deadbeef'') 1)))))"
    by (simp add: parts at_index_simps js_Number_abc del: js_Number.simps js_split.simps)
  have 1: "delete_flag logging_grist example_env example_hmac
        \<lparr>event = ''bkkjs'', slug = ''talk'', lang = ''en'', flagId = ''flag-42''\<rparr> []
      = (Inl InvalidFlagId, [])"
    by (rule invalid_token_rejected [where secret = "''s3cret''"])
       (simp_all add: example_secret)
  have 2: "delete_flag logging_grist example_env example_hmac
        \<lparr>event = ''bkkjs'', slug = ''talk'', lang = ''en'', flagId = ''flag-abc-deadbeef''\<rparr> []
      = (Inl InvalidFlagId, [])"
    using nohyphen wrong
    by (intro invalid_token_rejected [where secret = "''s3cret''"])
       (simp_all add: example_secret del: js_Number.simps js_split.simps)
  show ?thesis
    using short nohyphen wrong 1 2 by (simp only: example_secret) simp
qed

text \<open>
  A token whose second part is not numeric is accepted when its third part is the
  signature of \<^verbatim>\<open>NaN\<close>: \<^verbatim>\<open>Number("abc")\<close> is \<open>NaN\<close>, which prints as \<^verbatim>\<open>NaN\<close>, and the
  handler goes on to \<^verbatim>\<open>deleteRecords("Flags", [NaN])\<close>.
\<close>

theorem nonnumeric_id_accepted_counterexample:
  "delete_flag logging_grist example_env example_hmac
     \<lparr>event = ''bkkjs'', slug = ''talk'', lang = ''en'',
       flagId = ''flag-abc-'' @ digest_hex (example_hmac ''s3cret'' ''NaN'')\<rparr> []
   = (Inr True, [(''Flags'', [NaN])])"
  by (simp add: delete_flag_def check_forged_NaN logging_grist_def del: append.simps)

text \<open>
  C3. Whenever the check of the DELETE handler fails, the request fails with that error
  and the store is returned as it was, whatever the store's \<^verbatim>\<open>deleteRecords\<close> would do:
  no call reaches it.
\<close>

theorem invalid_token_leaves_store:
  "checkFlagId env h (flagId p) = Inl e \<Longrightarrow> delete_flag g env h p store = (Inl e, store)"
  by (simp add: delete_flag_def)

theorem invalid_token_leaves_store_witness:
  "checkFlagId example_env example_hmac
     (flagId \<lparr>event = ''bkkjs'', slug = ''talk'', lang = ''en'', flagId = ''flag-42-deadbeef''\<rparr>)
     = Inl InvalidFlagId
   \<and> delete_flag logging_grist example_env example_hmac
        \<lparr>event = ''bkkjs'', slug = ''talk'', lang = ''en'', flagId = ''flag-42-deadbeef''\<rparr> []
      = (Inl InvalidFlagId, [])"
proof -
  have c: "checkFlagId example_env example_hmac
     (flagId \<lparr>event = ''bkkjs'', slug = ''talk'', lang = ''en'', flagId = ''flag-42-deadbeef''\<rparr>)
     = Inl InvalidFlagId"
    using check_deadbeef by simp
  from invalid_token_leaves_store [OF c, of logging_grist "[]"] c show ?thesis
    by simp
qed

text \<open>
  C4, amended. With the secret set, the token minted for an integer \<open>id\<close> with
  \<open>\<bar>id\<bar> < 2 ^ 53\<close> is \<^verbatim>\<open>flag-<id>-<signature>\<close>, where \<^verbatim>\<open><id>\<close> is the decimal numeral
  of \<open>id\<close> and the signature is the digest of that numeral under the secret, written
  as 64 lowercase hexadecimal digits.
\<close>

theorem minted_token_shape:
  assumes "env ''FLAG_SECRET'' = Some secret" "secret \<noteq> []" and "\<bar>i\<bar> < 2 ^ 53"
  shows "createFlagId env h (Some (Fin (of_int i)))
           = Inr (''flag-'' @ dec_of_int i @ ''-'' @ digest_hex (h secret (dec_of_int i)))
         \<and> length (digest_hex (h secret (dec_of_int i))) = 64
         \<and> set (digest_hex (h secret (dec_of_int i))) \<subseteq> set ''0123456789abcdef''"
proof (intro conjI)
  show "createFlagId env h (Some (Fin (of_int i)))
      = Inr (''flag-'' @ dec_of_int i @ ''-'' @ digest_hex (h secret (dec_of_int i)))"
    using number_toString_of_int [OF assms(3)]
    by (simp add: createFlagId_Some [where env = env and secret = secret, OF assms(1,2)]
        del: number_toString.simps)
  show "length (digest_hex (h secret (dec_of_int i))) = 64"
    by (rule length_digest_hex)
  show "set (digest_hex (h secret (dec_of_int i))) \<subseteq> set ''0123456789abcdef''"
    by (rule digest_hex_chars)
qed

theorem minted_token_shape_witness:
  "example_env ''FLAG_SECRET'' = Some ''s3cret'' \<and> ''s3cret'' \<noteq> [] \<and> \<bar>- 7 :: int\<bar> < 2 ^ 53
   \<and> createFlagId example_env example_hmac (Some (Fin (of_int (- 7))))
       = Inr (''flag-'' @ ''-7'' @ ''-'' @ digest_hex (example_hmac ''s3cret'' ''-7''))
   \<and> length (digest_hex (example_hmac ''s3cret'' ''-7'')) = 64
   \<and> set (digest_hex (example_hmac ''s3cret'' ''-7'')) \<subseteq> set ''0123456789abcdef''"
proof -
  have d: "dec_of_int (- 7) = ''-7''"
    by (simp add: dec_of_int_def dec_of_nat.simps eval_chars)
  have b: "\<bar>- 7 :: int\<bar> < 2 ^ 53" by simp
  have n: "''s3cret'' \<noteq> []" by simp
  from minted_token_shape [where env = example_env and secret = "''s3cret''" and i = "- 7"
      and h = example_hmac, OF example_secret n b]
  show ?thesis
    unfolding d using example_secret n b by blast
qed

text \<open>
  From \<open>10 ^ 21\<close> on, \<^verbatim>\<open>String(id)\<close> is in exponent notation: the id part of the token
  minted for the integer \<open>10 ^ 21\<close> is \<^verbatim>\<open>1e+21\<close>, and that string is what is signed.
\<close>

theorem minted_token_large_id_counterexample:
  "createFlagId example_env example_hmac (Some (Fin (10 ^ 21)))
   = Inr (''flag-1e+21-'' @ digest_hex (example_hmac ''s3cret'' ''1e+21''))"
  unfolding createFlagId_Some [where env = example_env and secret = "''s3cret''" and h = example_hmac,
      OF example_secret, simplified] js_String.simps number_toString_1e21
  by simp

text \<open>
  C5. \<^verbatim>\<open>createFlagId\<close> is a function of the secret and the id alone: two runs in
  environments that agree on \<^verbatim>\<open>FLAG_SECRET\<close> return the same result for the same id.
\<close>

theorem createFlagId_deterministic:
  "env1 ''FLAG_SECRET'' = env2 ''FLAG_SECRET'' \<Longrightarrow> createFlagId env1 h n = createFlagId env2 h n"
  by (simp add: createFlagId_def)

theorem createFlagId_deterministic_witness:
  "example_env ''FLAG_SECRET'' = [''FLAG_SECRET'' \<mapsto> ''s3cret''] ''FLAG_SECRET''
   \<and> createFlagId example_env example_hmac (Some (Fin 42))
     = createFlagId [''FLAG_SECRET'' \<mapsto> ''s3cret''] example_hmac (Some (Fin 42))"
proof -
  have e: "example_env ''FLAG_SECRET'' = [''FLAG_SECRET'' \<mapsto> ''s3cret''] ''FLAG_SECRET''"
    by (simp add: example_env_def)
  from createFlagId_deterministic
         [of example_env "[''FLAG_SECRET'' \<mapsto> ''s3cret'']" example_hmac "Some (Fin 42)"] e
  show ?thesis by simp
qed

text \<open>
  C6, amended. For every millisecond offset from 0 to 86399999 (integer or not), the
  timestamp stored for the created flag is \<^verbatim>\<open>HH:MM:SS.mmm\<close>: twelve characters, the
  hours two digits up to 23, the minutes and the seconds two digits up to 59, the
  milliseconds three digits.
\<close>

theorem stored_timestamp_format:
  assumes "0 \<le> x" "x \<le> 86399999"
  shows "\<exists>h m s ms. h \<le> 23 \<and> m \<le> 59 \<and> s \<le> 59 \<and> ms \<le> 999
           \<and> row_timestamp (new_row p \<lparr>body_timestamp = Fin x, body_text = txt\<rparr>)
               = padStart 2 CHR ''0'' (dec_of_nat h) @ '':''
                 @ padStart 2 CHR ''0'' (dec_of_nat m) @ '':''
                 @ padStart 2 CHR ''0'' (dec_of_nat s) @ ''.''
                 @ padStart 3 CHR ''0'' (dec_of_nat ms)
           \<and> length (row_timestamp (new_row p \<lparr>body_timestamp = Fin x, body_text = txt\<rparr>)) = 12"
proof -
  define T :: rat where "T = 5937362721270923 / 68719476736"
  define t where "t = nearest (x / 1000)"
  have x0: "0 \<le> x / 1000" "x / 1000 \<le> 86399999 / 1000"
    using assms by simp_all
  have t0: "0 \<le> t" unfolding t_def by (rule nearest_nonneg [OF x0(1)])
  have tT: "t \<le> T"
    unfolding t_def T_def using nearest_mono0 [OF x0] by (simp add: nearest_86399_999)
  have td: "js_div (Fin x) 1000 = Fin t"
    using to_double_bounded [of "x / 1000" 86400 0] x0 by (simp add: eval_pow2 t_def)
  \<comment> \<open>hours\<close>
  have "t / 3600 \<le> T / 3600" using tT by simp
  also have "\<dots> \<le> of_int (24 * 2 ^ 30 - 1) * pow2 (- 30)"
    by (simp add: T_def eval_pow2)
  finally have hb: "t / 3600 \<le> of_int (24 * 2 ^ 30 - 1) * pow2 (- 30)" .
  have h0: "0 \<le> t / 3600" using t0 by simp
  have hd: "js_div (Fin t) 3600 = Fin (nearest (t / 3600))"
    using to_double_bounded [OF h0 hb] by simp
  have "nearest (t / 3600) \<le> of_int (24 * 2 ^ 30 - 1) * pow2 (- 30)"
    using nearest_le [OF h0 hb] by simp
  then have "nearest (t / 3600) < of_nat 24" by (simp add: eval_pow2)
  from field_string [OF nearest_nonneg [OF h0] this]
  obtain h where h: "h < 24" "number_toString (js_floor (Fin (nearest (t / 3600)))) = dec_of_nat h"
    by auto
  \<comment> \<open>minutes\<close>
  obtain u k where u: "js_rem (Fin t) 3600 = Fin u" "0 \<le> u" "u < 3600"
      "u = t - 3600 * of_int k" "0 \<le> k"
    using js_rem_range [OF t0, of 3600] by auto
  have "u \<le> 3600 - pow2 (- 41)"
    by (rule rem_3600_below [OF x0(1) t_def u(4,5,2,3)])
  then have "u / 60 \<le> (3600 - pow2 (- 41)) / 60" by simp
  also have "\<dots> \<le> of_int (60 * 2 ^ 47 - 1) * pow2 (- 47)"
    by (simp add: eval_pow2)
  finally have mb: "u / 60 \<le> of_int (60 * 2 ^ 47 - 1) * pow2 (- 47)" .
  have m0: "0 \<le> u / 60" using u(2) by simp
  have md: "js_div (Fin u) 60 = Fin (nearest (u / 60))"
    using to_double_bounded [OF m0 mb] by simp
  have "nearest (u / 60) \<le> of_int (60 * 2 ^ 47 - 1) * pow2 (- 47)"
    using nearest_le [OF m0 mb] by simp
  then have "nearest (u / 60) < of_nat 60" by (simp add: eval_pow2)
  from field_string [OF nearest_nonneg [OF m0] this]
  obtain m where m: "m < 60" "number_toString (js_floor (Fin (nearest (u / 60)))) = dec_of_nat m"
    by auto
  \<comment> \<open>seconds\<close>
  obtain v where v: "js_rem (Fin t) 60 = Fin v" "0 \<le> v" "v < 60"
    using js_rem_range [OF t0, of 60] by auto
  from field_string [of v 60] v
  obtain s where s: "s < 60" "number_toString (js_floor (Fin v)) = dec_of_nat s"
    by auto
  \<comment> \<open>milliseconds\<close>
  have w0: "0 \<le> t * 1000" using t0 by simp
  have "t * 1000 \<le> T * 1000" using tT by simp
  also have "\<dots> \<le> of_int 86400000 * pow2 0" by (simp add: T_def eval_pow2)
  finally have wb: "t * 1000 \<le> of_int 86400000 * pow2 0" .
  have wd: "js_mul (Fin t) 1000 = Fin (nearest (t * 1000))"
    using to_double_bounded [OF w0 wb] by simp
  obtain r where r: "js_rem (Fin (nearest (t * 1000))) 1000 = Fin r" "0 \<le> r" "r < 1000"
    using js_rem_range [OF nearest_nonneg [OF w0], of 1000] by auto
  from field_string [of r 1000] r
  obtain ms where ms: "ms < 1000" "number_toString (js_floor (Fin r)) = dec_of_nat ms"
    by auto
  have eq: "row_timestamp (new_row p \<lparr>body_timestamp = Fin x, body_text = txt\<rparr>)
      = padStart 2 CHR ''0'' (dec_of_nat h) @ '':''
        @ padStart 2 CHR ''0'' (dec_of_nat m) @ '':''
        @ padStart 2 CHR ''0'' (dec_of_nat s) @ ''.''
        @ padStart 3 CHR ''0'' (dec_of_nat ms)"
    unfolding new_row_def formatTime_def Let_def
    by (simp add: td hd u(1) md v(1) wd r(1) h(2) m(2) s(2) ms(2)
        del: js_div.simps js_mul.simps js_rem.simps js_floor.simps number_toString.simps)
  have len: "length (padStart 2 CHR ''0'' (dec_of_nat h)) = 2"
      "length (padStart 2 CHR ''0'' (dec_of_nat m)) = 2"
      "length (padStart 2 CHR ''0'' (dec_of_nat s)) = 2"
      "length (padStart 3 CHR ''0'' (dec_of_nat ms)) = 3"
    using h(1) m(1) s(1) ms(1) by (simp_all add: pad_length)
  have "length (row_timestamp (new_row p \<lparr>body_timestamp = Fin x, body_text = txt\<rparr>)) = 12"
    unfolding eq by (simp add: len)
  with eq h(1) m(1) s(1) ms(1) show ?thesis
    by (intro exI [of _ h] exI [of _ m] exI [of _ s] exI [of _ ms]) simp
qed

theorem stored_timestamp_format_witness:
  "(0 :: rat) \<le> 65000 \<and> (65000 :: rat) \<le> 86399999
   \<and> (\<exists>h m s ms. h \<le> 23 \<and> m \<le> 59 \<and> s \<le> 59 \<and> ms \<le> 999
       \<and> row_timestamp (new_row \<lparr>event = ''bkkjs'', slug = ''talk'', lang = ''en''\<rparr>
                           \<lparr>body_timestamp = Fin 65000, body_text = ''typo''\<rparr>)
           = padStart 2 CHR ''0'' (dec_of_nat h) @ '':''
             @ padStart 2 CHR ''0'' (dec_of_nat m) @ '':''
             @ padStart 2 CHR ''0'' (dec_of_nat s) @ ''.''
             @ padStart 3 CHR ''0'' (dec_of_nat ms)
       \<and> length (row_timestamp (new_row \<lparr>event = ''bkkjs'', slug = ''talk'', lang = ''en''\<rparr>
                           \<lparr>body_timestamp = Fin 65000, body_text = ''typo''\<rparr>)) = 12)"
  using stored_timestamp_format [of 65000 "\<lparr>event = ''bkkjs'', slug = ''talk'', lang = ''en''\<rparr>" "''typo''"]
  by simp

text \<open>
  A negative offset is accepted and formatted field by field: \<^verbatim>\<open>Math.floor\<close> and
  \<^verbatim>\<open>%\<close> keep the sign, and \<^verbatim>\<open>padStart\<close> leaves \<^verbatim>\<open>-1\<close> alone. One second before zero
  is stored as \<^verbatim>\<open>-1:-1:-1.000\<close>.
\<close>

theorem stored_timestamp_negative_counterexample:
  "row_timestamp (new_row \<lparr>event = ''bkkjs'', slug = ''talk'', lang = ''en''\<rparr>
                    \<lparr>body_timestamp = Fin (- 1000), body_text = ''typo''\<rparr>)
   = ''-1:-1:-1.000''"
proof -
  have "to_double (- 1) = Fin (- nearest 1)"
    using to_double_neg [of 1] nearest_of_nat [of 1] pow2_less_iff [of 0 1024]
    by (simp add: eval_pow2)
  then have "js_div (Fin (- 1000)) 1000 = Fin (- 1)"
    using nearest_of_nat [of 1] by simp
  then show ?thesis
    by (simp add: new_row_def formatTime_minus_1 del: js_div.simps)
qed

text \<open>
  C7. The three equations of the time formatter, on the binary64 values of the
  literals \<^verbatim>\<open>0\<close>, \<^verbatim>\<open>3661.5\<close> and \<^verbatim>\<open>86399.999\<close>, with every division and product rounded.
\<close>

theorem formatTime_examples:
  "formatTime (to_double 0) = ''00:00:00.000''
   \<and> formatTime (to_double (7323 / 2)) = ''01:01:01.500''
   \<and> formatTime (to_double (86399999 / 1000)) = ''23:59:59.999''"
  by (simp only: formatTime_zero formatTime_3661_5 formatTime_86399_999)

text \<open>
  C8, amended. When the first occurrence of \<^verbatim>\<open>youtube:\<close> in the content is followed by
  white space, an optional quote and a non-empty run of identifier characters that ends
  the content or is followed by another character, \<^verbatim>\<open>parseYouTubeId\<close> returns that run.
  When \<^verbatim>\<open>youtube:\<close> occurs nowhere in the content, it fails.
\<close>

theorem parseYouTubeId_first_key:
  "(list_all is_white ws \<and> (q = [] \<or> (\<exists>c. q = [c] \<and> is_quote c))
      \<and> tok \<noteq> [] \<and> list_all is_id_char tok \<and> (rest = [] \<or> \<not> is_id_char (hd rest))
      \<and> (\<forall>i<length pre. take 8 (drop i (pre @ ''youtube:'' @ ws @ q @ tok @ rest)) \<noteq> ''youtube:'')
    \<longrightarrow> parseYouTubeId (pre @ ''youtube:'' @ ws @ q @ tok @ rest) = Inr tok)
   \<and> ((\<forall>i. take 8 (drop i content) \<noteq> ''youtube:'')
    \<longrightarrow> parseYouTubeId content = Inl YouTubeIdNotFound)"
proof (intro conjI impI)
  assume a: "list_all is_white ws \<and> (q = [] \<or> (\<exists>c. q = [c] \<and> is_quote c))
      \<and> tok \<noteq> [] \<and> list_all is_id_char tok \<and> (rest = [] \<or> \<not> is_id_char (hd rest))
      \<and> (\<forall>i<length pre. take 8 (drop i (pre @ ''youtube:'' @ ws @ q @ tok @ rest)) \<noteq> ''youtube:'')"
  then have "match_here (''youtube:'' @ ws @ q @ tok @ rest) = Some tok"
    by (intro match_here_key) auto
  then have "regex_match (''youtube:'' @ ws @ q @ tok @ rest) = Some tok"
    by (rule regex_match_here)
  moreover have "regex_match (pre @ ''youtube:'' @ ws @ q @ tok @ rest)
      = regex_match (''youtube:'' @ ws @ q @ tok @ rest)"
    using a by (intro regex_match_skip) blast
  ultimately show "parseYouTubeId (pre @ ''youtube:'' @ ws @ q @ tok @ rest) = Inr tok"
    by (simp add: parseYouTubeId_def del: append.simps)
next
  assume "\<forall>i. take 8 (drop i content) \<noteq> ''youtube:''"
  then show "parseYouTubeId content = Inl YouTubeIdNotFound"
    by (simp add: parseYouTubeId_def regex_match_no_key)
qed

theorem parseYouTubeId_first_key_witness:
  "list_all is_white '' '' \<and> is_quote (CHR 0x22) \<and> ''abc123'' \<noteq> []
   \<and> list_all is_id_char ''abc123'' \<and> \<not> is_id_char (hd [CHR 0x22])
   \<and> CHR ''y'' \<notin> set (''title: x'' @ [CHR 0x0A])
   \<and> parseYouTubeId ((''title: x'' @ [CHR 0x0A]) @ ''youtube:'' @ '' '' @ [CHR 0x22]
                          @ ''abc123'' @ [CHR 0x22]) = Inr ''abc123''
   \<and> parseYouTubeId ''title: x'' = Inl YouTubeIdNotFound"
proof -
  have ws: "list_all is_white '' ''" by (simp add: is_white_def)
  have q: "is_quote (CHR 0x22)" by (simp add: is_quote_def)
  have tok: "''abc123'' \<noteq> []" "list_all is_id_char ''abc123''"
    by (simp_all add: is_id_char_def)
  have rest: "\<not> is_id_char (hd [CHR 0x22])" by (simp add: is_id_char_def)
  have first: "\<forall>i<length (''title: x'' @ [CHR 0x0A]).
         take 8 (drop i ((''title: x'' @ [CHR 0x0A]) @ ''youtube:'' @ '' '' @ [CHR 0x22]
                          @ ''abc123'' @ [CHR 0x22])) \<noteq> ''youtube:''"
    by (rule prefix_no_y_no_key) simp
  have none: "\<forall>i. take 8 (drop i ''title: x'') \<noteq> ''youtube:''"
    by (intro allI no_y_no_key) simp
  note inst = parseYouTubeId_first_key [of "'' ''" "[CHR 0x22]" "''abc123''" "[CHR 0x22]"
      "''title: x'' @ [CHR 0x0A]" "''title: x''"]
  have a: "parseYouTubeId ((''title: x'' @ [CHR 0x0A]) @ ''youtube:'' @ '' '' @ [CHR 0x22]
                          @ ''abc123'' @ [CHR 0x22]) = Inr ''abc123''"
    using inst ws q tok rest first by blast
  have b: "parseYouTubeId ''title: x'' = Inl YouTubeIdNotFound"
    using inst none by blast
  have noy: "CHR ''y'' \<notin> set (''title: x'' @ [CHR 0x0A])" by simp
  show ?thesis
    using ws q tok rest noy a b by blast
qed

text \<open>
  With two keys in the content the first one wins: the content contains
  \<^verbatim>\<open>youtube: "abc123"\<close>, and the result is \<^verbatim>\<open>zzz\<close>.
\<close>

theorem parseYouTubeId_second_key_counterexample:
  "parseYouTubeId (''youtube: zzz'' @ [CHR 0x0A] @ ''youtube: '' @ [CHR 0x22] @ ''abc123'' @ [CHR 0x22])
   = Inr ''zzz''"
  by (simp add: parseYouTubeId_def match_here_def is_white_def is_quote_def is_id_char_def)

text \<open>
  C9. The type tag is never inspected: for every tag without a hyphen and every rest of
  the token (in particular \<^verbatim>\<open><id>-<sig>\<close> with the signature of \<open>id\<close>), the DELETE handler
  does with \<^verbatim>\<open><tag>-<rest>\<close> exactly what it does with \<^verbatim>\<open>flag-<rest>\<close>.
\<close>

theorem type_tag_not_inspected:
  assumes "CHR ''-'' \<notin> set tag"
  shows "delete_flag g env h \<lparr>event = e, slug = s, lang = l, flagId = tag @ ''-'' @ rest\<rparr> store
       = delete_flag g env h \<lparr>event = e, slug = s, lang = l, flagId = ''flag-'' @ rest\<rparr> store"
proof -
  have "js_split (tag @ ''-'' @ rest) = tag # js_split rest"
    using js_split_append [OF assms] by simp
  moreover have "js_split (''flag-'' @ rest) = ''flag'' # js_split rest"
    using js_split_append [of "''flag''" rest] by simp
  ultimately have "checkFlagId env h (tag @ ''-'' @ rest) = checkFlagId env h (''flag-'' @ rest)"
    by (simp add: checkFlagId_tail)
  then show ?thesis by (simp add: delete_flag_def)
qed

theorem type_tag_not_inspected_witness:
  "CHR ''-'' \<notin> set ''video''
   \<and> delete_flag logging_grist example_env example_hmac
        \<lparr>event = ''bkkjs'', slug = ''talk'', lang = ''en'',
          flagId = ''video'' @ ''-'' @ ''42-'' @ digest_hex (example_hmac ''s3cret'' ''42'')\<rparr> []
      = delete_flag logging_grist example_env example_hmac
        \<lparr>event = ''bkkjs'', slug = ''talk'', lang = ''en'',
          flagId = ''flag-'' @ ''42-'' @ digest_hex (example_hmac ''s3cret'' ''42'')\<rparr> []
   \<and> delete_flag logging_grist example_env example_hmac
        \<lparr>event = ''bkkjs'', slug = ''talk'', lang = ''en'',
          flagId = ''video'' @ ''-'' @ ''42-'' @ digest_hex (example_hmac ''s3cret'' ''42'')\<rparr> []
      = (Inr True, [(''Flags'', [Fin 42])])"
proof -
  have t: "CHR ''-'' \<notin> set ''video''" by simp
  define rest where "rest = ''42-'' @ digest_hex (example_hmac ''s3cret'' ''42'')"
  have "checkFlagId example_env example_hmac (''flag-'' @ rest) = Inr (Fin 42)"
    using minted_token_accepted(2) [where env = example_env and secret = "''s3cret''"
        and h = example_hmac and n = 42, OF example_secret]
    by (simp add: dec_of_nat_42 rest_def)
  then have acc: "delete_flag logging_grist example_env example_hmac
        \<lparr>event = ''bkkjs'', slug = ''talk'', lang = ''en'', flagId = ''flag-'' @ rest\<rparr> []
      = (Inr True, [(''Flags'', [Fin 42])])"
    by (simp add: delete_flag_def logging_grist_def del: append.simps)
  from type_tag_not_inspected [OF t, of logging_grist example_env example_hmac
      "''bkkjs''" "''talk''" "''en''" rest "[]"] acc t
  show ?thesis
    by (simp only: rest_def) simp
qed

text \<open>
  C10. The DELETE handler does not depend on the \<^verbatim>\<open>event\<close>, \<^verbatim>\<open>slug\<close> and \<^verbatim>\<open>lang\<close>
  path parameters: with the same \<^verbatim>\<open>flagId\<close>, any two triples give the same result and
  the same store.
\<close>

theorem delete_flag_ignores_path:
  "delete_flag g env h \<lparr>event = e1, slug = s1, lang = l1, flagId = f\<rparr> store
   = delete_flag g env h \<lparr>event = e2, slug = s2, lang = l2, flagId = f\<rparr> store"
  by (simp add: delete_flag_def)

end
